theory Spec2Isabelle
  imports Complex_Main
begin

section \<open>Python values: errors, ranges, truncation, random generators\<close>

text \<open>
  Exceptions are values. \<open>ValueError\<close> is what \<open>random.sample\<close> raises for a sample size
  that is negative or larger than the population, \<open>IndexError\<close> is the out-of-range
  failure of the grid and of \<open>random.choice\<close> on an empty sequence, \<open>ZeroDivisionError\<close>
  is a division by zero, \<open>TypeError\<close> is the use of an agent's \<open>pos\<close> while it is
  still \<open>None\<close>, and \<open>OverflowError\<close> is the conversion of an integer too large for a
  float, or of an infinite float to an integer.
\<close>

datatype error = ValueError | IndexError | ZeroDivisionError | TypeError | OverflowError

type_synonym coord = "int \<times> int"

text \<open>\<open>range(n)\<close> for a Python integer \<open>n\<close>: empty when \<open>n \<le> 0\<close>.\<close>

definition py_range :: "int \<Rightarrow> int list" where
  "py_range n = [0..n - 1]"

text \<open>
  A Python \<open>float\<close> is an IEEE 754 binary64 number. A finite float is given by its exact
  rational value (the literal \<open>0.7\<close> is \<open>3152519739159347 / 4503599627370496\<close>);
  \<open>Infinity\<close> is a result beyond the finite range, of either sign.
\<close>

datatype pyfloat = Finite rat | Infinity

text \<open>\<open>int.bit_length\<close>, for a non-negative integer.\<close>

function bit_length :: "int \<Rightarrow> int" where
  "bit_length n = (if n \<le> 0 then 0 else 1 + bit_length (n div 2))"
  by auto
termination
  by (relation "measure nat") auto

definition pow2 :: "int \<Rightarrow> rat" where
  "pow2 e = (if 0 \<le> e then 2 ^ nat e else 1 / 2 ^ nat (- e))"

text \<open>The exponent \<open>e\<close> with \<open>2 ^ e \<le> x < 2 ^ (e + 1)\<close>, for a positive \<open>x\<close>.\<close>

definition floor_log2 :: "rat \<Rightarrow> int" where
  "floor_log2 x =
     (case quotient_of x of (p, q) \<Rightarrow>
        (let d = bit_length p - bit_length q
         in if pow2 d \<le> x then d else d - 1))"

definition round_half_even :: "rat \<Rightarrow> int" where
  "round_half_even x =
     (let f = \<lfloor>x\<rfloor>; d = x - of_int f
      in if d < 1 / 2 then f else if 1 / 2 < d then f + 1 else if even f then f else f + 1)"

text \<open>
  Rounding of an exact result to the nearest float, ties to the even significand: 53
  significant bits, the least exponent of the subnormal numbers \<open>-1074\<close>, and
  \<open>Infinity\<close> once the rounded magnitude reaches \<open>2 ^ 1024\<close>.
\<close>

definition fl_round :: "rat \<Rightarrow> pyfloat" where
  "fl_round x =
     (if x = 0 then Finite 0
      else (let a = \<bar>x\<bar>;
                q = max (floor_log2 a - 52) (- 1074);
                m = round_half_even (a / pow2 q)
            in if 1024 < q + bit_length m then Infinity
               else Finite (sgn x * (of_int m * pow2 q))))"

text \<open>
  \<open>n * x\<close> for an integer \<open>n\<close> and a finite float \<open>x\<close>: the integer is converted to a
  float first, which raises when it is too large, and the product of the two floats is
  rounded.
\<close>

definition int_mul_float :: "int \<Rightarrow> rat \<Rightarrow> error + pyfloat" where
  "int_mul_float n x =
     (case fl_round (of_int n) of
        Infinity \<Rightarrow> Inl OverflowError
      | Finite a \<Rightarrow> Inr (fl_round (a * x)))"

text \<open>\<open>int(x)\<close> truncates a finite float towards zero and raises on an infinite one.\<close>

definition py_int :: "pyfloat \<Rightarrow> error + int" where
  "py_int x =
     (case x of
        Infinity \<Rightarrow> Inl OverflowError
      | Finite y \<Rightarrow> Inr (if 0 \<le> y then \<lfloor>y\<rfloor> else \<lceil>y\<rceil>))"

text \<open>
  \<open>int(n * x)\<close>, the expression by which both constructors compute the number of dirty
  cells from the integer \<open>width * height\<close> and the float \<open>dirtPercentage\<close>. The argument
  is a finite float; an integer argument gives the same count as long as the product
  stays below \<open>2 ^ 53\<close>, where the conversion and the product are exact.
\<close>

definition int_of_product :: "int \<Rightarrow> rat \<Rightarrow> error + int" where
  "int_of_product n x = (case int_mul_float n x of Inl e \<Rightarrow> Inl e | Inr y \<Rightarrow> py_int y)"

text \<open>
  A random generator is the stream of raw draws it is going to produce; drawing reads the
  head and leaves the tail. Every sequence of outcomes of Python's generator is the run of
  the model on some stream.
\<close>

type_synonym rng = "nat \<Rightarrow> nat"

definition randbelow :: "rng \<Rightarrow> nat \<Rightarrow> nat \<times> rng" where
  "randbelow g n = (g 0 mod n, \<lambda>i. g (Suc i))"

text \<open>Drawing \<open>k\<close> elements without replacement: each draw removes the chosen element.\<close>

fun sample_loop :: "rng \<Rightarrow> 'a list \<Rightarrow> nat \<Rightarrow> 'a list \<times> rng" where
  "sample_loop g pool 0 = ([], g)"
| "sample_loop g pool (Suc k) =
     (case randbelow g (length pool) of (j, g1) \<Rightarrow>
        (case sample_loop g1 (take j pool @ drop (Suc j) pool) k of (rest, g2) \<Rightarrow>
           (pool ! j # rest, g2)))"

text \<open>\<open>random.sample(population, k)\<close>.\<close>

definition random_sample :: "rng \<Rightarrow> 'a list \<Rightarrow> int \<Rightarrow> error + ('a list \<times> rng)" where
  "random_sample g population k =
     (if k < 0 \<or> int (length population) < k then Inl ValueError
      else Inr (sample_loop g population (nat k)))"

text \<open>\<open>random.choice(seq)\<close>.\<close>

definition random_choice :: "rng \<Rightarrow> 'a list \<Rightarrow> error + ('a \<times> rng)" where
  "random_choice g seq =
     (if seq = [] then Inl IndexError
      else (case randbelow g (length seq) of (j, g1) \<Rightarrow> Inr (seq ! j, g1)))"

text \<open>\<open>random.shuffle(xs)\<close>: a permutation drawn from the generator.\<close>

definition random_shuffle :: "rng \<Rightarrow> 'a list \<Rightarrow> 'a list \<times> rng" where
  "random_shuffle g xs = sample_loop g xs (length xs)"

section \<open>The grid of the Mesa library\<close>

text \<open>
  Modelled from the spec: the class \<open>MultiGrid\<close> of the Mesa library, which both modules
  import and which is not part of the sources. The model follows the Grid contract of the
  specification (section 4.1): a cell holds a sequence of entities, \<open>place\<close> and \<open>move\<close>
  fail on an out-of-bounds coordinate, \<open>neighbors\<close> is the Moore neighbourhood without
  the centre, clipped to the bounds (the grid is created with \<open>torus = False\<close>). Entities
  are named by their \<open>unique_id\<close>; the attribute \<open>pos\<close> that the grid maintains on every
  placed agent is the field \<open>agent_pos\<close>.
\<close>

record 'i multigrid =
  width :: int
  height :: int
  cells :: "coord \<Rightarrow> 'i list"
  agent_pos :: "'i \<Rightarrow> coord option"

definition MultiGrid :: "int \<Rightarrow> int \<Rightarrow> 'i multigrid" where
  "MultiGrid w h = \<lparr>width = w, height = h, cells = (\<lambda>p. []), agent_pos = (\<lambda>a. None)\<rparr>"

definition out_of_bounds :: "'i multigrid \<Rightarrow> coord \<Rightarrow> bool" where
  "out_of_bounds g p = (fst p < 0 \<or> width g \<le> fst p \<or> snd p < 0 \<or> height g \<le> snd p)"

definition place_agent :: "'i multigrid \<Rightarrow> 'i \<Rightarrow> coord \<Rightarrow> error + 'i multigrid" where
  "place_agent g a p =
     (if out_of_bounds g p then Inl IndexError
      else Inr (g\<lparr>cells := (cells g)(p := cells g p @ [a]),
                 agent_pos := (agent_pos g)(a \<mapsto> p)\<rparr>))"

definition remove_agent :: "'i multigrid \<Rightarrow> 'i \<Rightarrow> 'i multigrid" where
  "remove_agent g a =
     (case agent_pos g a of
        None \<Rightarrow> g
      | Some p \<Rightarrow> g\<lparr>cells := (cells g)(p := remove1 a (cells g p)),
                     agent_pos := (agent_pos g)(a := None)\<rparr>)"

definition move_agent :: "'i multigrid \<Rightarrow> 'i \<Rightarrow> coord \<Rightarrow> error + 'i multigrid" where
  "move_agent g a p =
     (if out_of_bounds g p then Inl IndexError
      else place_agent (remove_agent g a) a p)"

text \<open>\<open>get_neighborhood(pos, moore=True, include_center=False)\<close>.\<close>

definition get_neighborhood :: "'i multigrid \<Rightarrow> coord \<Rightarrow> coord list" where
  "get_neighborhood g p =
     filter (\<lambda>c. \<not> out_of_bounds g c \<and> c \<noteq> p)
       (concat (map (\<lambda>dx. map (\<lambda>dy. (fst p + dx, snd p + dy)) [-1, 0, 1]) [-1, 0, 1]))"

text \<open>\<open>get_cell_list_contents([pos])\<close>.\<close>

definition get_cell_list_contents :: "'i multigrid \<Rightarrow> coord \<Rightarrow> 'i list" where
  "get_cell_list_contents g p = cells g p"

section \<open>main.py: the simulation with statistics and a time budget\<close>

text \<open>
  Agent objects live in a store indexed by their \<open>unique_id\<close>: \<open>tile_id x y\<close> is the
  identifier \<open>f"tile_{x}_{y}"\<close> and \<open>robot_id i\<close> is \<open>f"robot_{i}"\<close>. The grid cells and
  the scheduler refer to agents by identifier, so a robot reached through the scheduler
  and through its cell is one object.
\<close>

datatype agent_id = tile_id int int | robot_id int

text \<open>The identifier of the tile that the constructor creates for a coordinate.\<close>

definition tile_of :: "coord \<Rightarrow> agent_id" where
  "tile_of p = tile_id (fst p) (snd p)"

datatype agent = GridTile (status: int) | CleaningRobot (cellsCleaned: int) (totalMovements: int)

record CleaningSimulation =
  running :: bool
  robotCount :: int
  gridWidth :: int
  gridHeight :: int
  maxTime :: rat
  startTime :: rat
  dirtPercentage :: rat
  grid :: "agent_id multigrid"
  schedule :: "agent_id list"
  cleanCells :: int
  initialDirtyCells :: int
  stepsExecuted :: int
  agents :: "agent_id \<Rightarrow> agent option"
  random :: rng

text \<open>The test \<open>isinstance(obj, GridTile) and obj.status == 1\<close> of \<open>CleaningRobot.step\<close>.\<close>

definition is_dirty_tile :: "CleaningSimulation \<Rightarrow> agent_id \<Rightarrow> bool" where
  "is_dirty_tile s a = (case agents s a of Some (GridTile st) \<Rightarrow> st = 1 | _ \<Rightarrow> False)"

text \<open>
  \<open>CleaningRobot.randomMove\<close>. The comprehension re-validates the neighbourhood against
  the bounds; an empty \<open>validCells\<close> skips the move.
\<close>

definition randomMove :: "CleaningSimulation \<Rightarrow> agent_id \<Rightarrow> error + CleaningSimulation" where
  "randomMove s r =
     (case agent_pos (grid s) r of
        None \<Rightarrow> Inl TypeError
      | Some p \<Rightarrow>
          (let adjacentCells = get_neighborhood (grid s) p;
               validCells = filter (\<lambda>cell. 0 \<le> fst cell \<and> fst cell < width (grid s)
                                         \<and> 0 \<le> snd cell \<and> snd cell < height (grid s))
                              adjacentCells
           in if validCells \<noteq> [] then
                (case random_choice (random s) validCells of
                   Inl e \<Rightarrow> Inl e
                 | Inr (nextPosition, g1) \<Rightarrow>
                     (case move_agent (grid s) r nextPosition of
                        Inl e \<Rightarrow> Inl e
                      | Inr gr \<Rightarrow>
                          Inr (s\<lparr>random := g1, grid := gr,
                                 agents := (case agents s r of
                                    Some (CleaningRobot c m) \<Rightarrow> (agents s)(r \<mapsto> CleaningRobot c (m + 1))
                                  | _ \<Rightarrow> agents s)\<rparr>)))
              else Inr s))"

text \<open>
  \<open>CleaningRobot.step\<close>: the first dirty tile found in the robot's cell is cleaned and the
  method returns; only when there is none does the robot move.
\<close>

definition CleaningRobot_step :: "CleaningSimulation \<Rightarrow> agent_id \<Rightarrow> error + CleaningSimulation" where
  "CleaningRobot_step s r =
     (case agent_pos (grid s) r of
        None \<Rightarrow> Inl TypeError
      | Some p \<Rightarrow>
          (case find (is_dirty_tile s) (get_cell_list_contents (grid s) p) of
             Some obj \<Rightarrow>
               Inr (s\<lparr>agents := (case agents s r of
                         Some (CleaningRobot c m) \<Rightarrow>
                           (agents s)(obj \<mapsto> GridTile 0, r \<mapsto> CleaningRobot (c + 1) m)
                       | _ \<Rightarrow> (agents s)(obj \<mapsto> GridTile 0)),
                      cleanCells := cleanCells s + 1\<rparr>)
           | None \<Rightarrow> randomMove s r))"

text \<open>
  The \<open>step\<close> method of whatever agent the scheduler holds: a robot runs
  \<open>CleaningRobot.step\<close>, any other agent inherits the empty \<open>Agent.step\<close>.
\<close>

definition agent_step :: "CleaningSimulation \<Rightarrow> agent_id \<Rightarrow> error + CleaningSimulation" where
  "agent_step s a =
     (case agents s a of
        Some (CleaningRobot c m) \<Rightarrow> CleaningRobot_step s a
      | _ \<Rightarrow> Inr s)"

text \<open>
  A raised exception leaves the object as mutated so far: an outcome is the state after
  the call together with the exception, if one was raised.
\<close>

type_synonym outcome = "CleaningSimulation \<times> error option"

fun activate :: "CleaningSimulation \<Rightarrow> agent_id list \<Rightarrow> outcome" where
  "activate s [] = (s, None)"
| "activate s (a # as) =
     (case agent_step s a of
        Inl e \<Rightarrow> (s, Some e)
      | Inr s1 \<Rightarrow> activate s1 as)"

text \<open>
  Modelled from the spec: \<open>RandomActivation.step\<close> of the Mesa library (specification,
  section 4.4): a fresh permutation of the scheduled agents, drawn from the model's own
  generator, each agent activated once in that order.
\<close>

definition schedule_step :: "CleaningSimulation \<Rightarrow> outcome" where
  "schedule_step s =
     (case random_shuffle (random s) (schedule s) of
        (order, g1) \<Rightarrow> activate (s\<lparr>random := g1\<rparr>) order)"

record statistics =
  PorcentajeCompletado :: rat
  TiempoTranscurrido :: rat
  MovimientosTotales :: int

definition robot_movements :: "CleaningSimulation \<Rightarrow> agent_id \<Rightarrow> int" where
  "robot_movements s a = (case agents s a of Some (CleaningRobot c m) \<Rightarrow> m | _ \<Rightarrow> 0)"

text \<open>
  \<open>getStatistics\<close>, with the clock reading \<open>now\<close> of \<open>time.time()\<close>. The quotient
  \<open>cleanCells / initialDirtyCells\<close> is Python's true division, which raises on a zero
  divisor. The percentage and the elapsed time are reported by their exact values, without
  the rounding of the float division, product and difference.
\<close>

definition getStatistics :: "CleaningSimulation \<Rightarrow> rat \<Rightarrow> error + statistics" where
  "getStatistics s now =
     (let elapsedTime = now - startTime s
      in if initialDirtyCells s = 0 then Inl ZeroDivisionError
         else Inr \<lparr>PorcentajeCompletado =
                      (of_int (cleanCells s) / of_int (initialDirtyCells s)) * 100,
                   TiempoTranscurrido = elapsedTime,
                   MovimientosTotales = sum_list (map (robot_movements s) (schedule s))\<rparr>)"

text \<open>
  \<open>CleaningSimulation.step\<close> at clock reading \<open>now\<close>. When the termination test holds the
  flag is cleared first and the statistics are computed (and printed) afterwards; the
  clock is read once more there, and the model takes that reading to be \<open>now\<close> again.
  Clock readings and \<open>maxTime\<close> are numbers of seconds, and a reading may be smaller than
  an earlier one: \<open>time.time()\<close> is the wall clock, which can be set back.
\<close>

definition step :: "CleaningSimulation \<Rightarrow> rat \<Rightarrow> outcome" where
  "step s now =
     (let elapsedTime = now - startTime s
      in if maxTime s \<le> elapsedTime \<or> initialDirtyCells s \<le> cleanCells s then
           (let s1 = s\<lparr>running := False\<rparr>
            in (case getStatistics s1 now of
                  Inl e \<Rightarrow> (s1, Some e)
                | Inr stats \<Rightarrow> (s1, None)))
         else
           (case schedule_step s of
              (s1, Some e) \<Rightarrow> (s1, Some e)
            | (s1, None) \<Rightarrow> (s1\<lparr>stepsExecuted := stepsExecuted s1 + 1\<rparr>, None)))"

text \<open>The two loops of \<open>setupEnvironment\<close>.\<close>

fun createTiles :: "coord list \<Rightarrow> coord list \<Rightarrow> CleaningSimulation \<Rightarrow> error + CleaningSimulation" where
  "createTiles dirtyPositions [] s = Inr s"
| "createTiles dirtyPositions (c # cs) s =
     (let tileStatus = (if c \<in> set dirtyPositions then 1 else 0);
          tile = tile_of c
      in (case place_agent (grid s) tile c of
            Inl e \<Rightarrow> Inl e
          | Inr gr \<Rightarrow>
              createTiles dirtyPositions cs
                (s\<lparr>agents := (agents s)(tile \<mapsto> GridTile tileStatus), grid := gr\<rparr>)))"

fun placeRobots :: "int list \<Rightarrow> CleaningSimulation \<Rightarrow> error + CleaningSimulation" where
  "placeRobots [] s = Inr s"
| "placeRobots (i # is) s =
     (let robot = robot_id i;
          initialPosition = (1, 1);
          s1 = s\<lparr>agents := (agents s)(robot \<mapsto> CleaningRobot 0 0),
                 schedule := schedule s @ [robot]\<rparr>
      in (case place_agent (grid s1) robot initialPosition of
            Inl e \<Rightarrow> Inl e
          | Inr gr \<Rightarrow> placeRobots is (s1\<lparr>grid := gr\<rparr>)))"

definition all_coords :: "int \<Rightarrow> int \<Rightarrow> coord list" where
  "all_coords w h = concat (map (\<lambda>x. map (\<lambda>y. (x, y)) (py_range h)) (py_range w))"

text \<open>
  \<open>setupEnvironment\<close>. The dirty positions are sampled from the generator of the module
  \<open>random\<close> (the argument \<open>glob\<close>), not from the model's own generator.
\<close>

definition setupEnvironment :: "CleaningSimulation \<Rightarrow> rng \<Rightarrow> error + (CleaningSimulation \<times> rng)" where
  "setupEnvironment s glob =
     (case random_sample glob (all_coords (gridWidth s) (gridHeight s)) (initialDirtyCells s) of
        Inl e \<Rightarrow> Inl e
      | Inr (dirtyPositions, glob1) \<Rightarrow>
          (case createTiles dirtyPositions (all_coords (gridWidth s) (gridHeight s)) s of
             Inl e \<Rightarrow> Inl e
           | Inr s1 \<Rightarrow>
               (case placeRobots (py_range (robotCount s1)) s1 of
                  Inl e \<Rightarrow> Inl e
                | Inr s2 \<Rightarrow> Inr (s2, glob1))))"

text \<open>
  \<open>CleaningSimulation.__init__\<close>. Besides the five parameters of the source the model
  takes what the constructor reads from its environment: the clock reading \<open>now\<close>, the
  freshly seeded generator \<open>own\<close> that Mesa gives the model as \<open>self.random\<close>, and the state
  \<open>glob\<close> of the module-level generator.
\<close>

definition CleaningSimulation_init ::
  "int \<Rightarrow> int \<Rightarrow> int \<Rightarrow> rat \<Rightarrow> rat \<Rightarrow> rat \<Rightarrow> rng \<Rightarrow> rng \<Rightarrow> error + (CleaningSimulation \<times> rng)" where
  "CleaningSimulation_init w h rc dp mt now own glob =
     (case int_of_product (w * h) dp of
        Inl e \<Rightarrow> Inl e
      | Inr n \<Rightarrow>
          setupEnvironment
            \<lparr>running = True, robotCount = rc, gridWidth = w, gridHeight = h, maxTime = mt,
             startTime = now, dirtPercentage = dp, grid = MultiGrid w h, schedule = [],
             cleanCells = 0, initialDirtyCells = n,
             stepsExecuted = 0, agents = (\<lambda>a. None), random = own\<rparr>
            glob)"

text \<open>
  The caller drives the simulation by calling \<open>step()\<close> again and again: \<open>run s ts\<close> is
  the object after one call per clock reading of \<open>ts\<close>, in order, whatever each call
  raised.
\<close>

fun run :: "CleaningSimulation \<Rightarrow> rat list \<Rightarrow> CleaningSimulation" where
  "run s [] = s"
| "run s (now # ts) = run (fst (step s now)) ts"

text \<open>What a cell holds: its tiles (\<open>isinstance(obj, GridTile)\<close>) and its dirty tiles.\<close>

definition is_tile :: "CleaningSimulation \<Rightarrow> agent_id \<Rightarrow> bool" where
  "is_tile s a = (case agents s a of Some (GridTile st) \<Rightarrow> True | _ \<Rightarrow> False)"

definition tiles_at :: "CleaningSimulation \<Rightarrow> coord \<Rightarrow> agent_id list" where
  "tiles_at s p = filter (is_tile s) (get_cell_list_contents (grid s) p)"

definition dirty_at :: "CleaningSimulation \<Rightarrow> coord \<Rightarrow> agent_id list" where
  "dirty_at s p = filter (is_dirty_tile s) (get_cell_list_contents (grid s) p)"

text \<open>The dirty tiles of the whole grid, cell by cell.\<close>

definition dirtyTiles :: "CleaningSimulation \<Rightarrow> agent_id list" where
  "dirtyTiles s = concat (map (dirty_at s) (all_coords (gridWidth s) (gridHeight s)))"

section \<open>cleaning\_robot.py: the minimal simulation with a round budget\<close>

text \<open>
  The second module has the same classes without the statistics. Its agents are
  identified by \<open>(x, y)\<close> (tiles, written \<open>tile_id x y\<close>) and by \<open>i\<close> (robots, written
  \<open>robot_id i\<close>). Names that would clash with the first module carry the prefix \<open>cr\<close>.
\<close>

datatype cr_agent = cr_GridTile (cr_status: int) | cr_CleaningRobot

record cr_CleaningSimulation =
  cr_running :: bool
  steps_remaining :: int
  cr_grid :: "agent_id multigrid"
  cr_schedule :: "agent_id list"
  cr_agents :: "agent_id \<Rightarrow> cr_agent option"
  cr_random :: rng

definition cr_is_dirty_tile :: "cr_CleaningSimulation \<Rightarrow> agent_id \<Rightarrow> bool" where
  "cr_is_dirty_tile s a = (case cr_agents s a of Some (cr_GridTile st) \<Rightarrow> st = 1 | _ \<Rightarrow> False)"

text \<open>
  \<open>CleaningRobot.random_move\<close>: the neighbourhood goes to \<open>random.choice\<close> as it is,
  with no test for emptiness.
\<close>

definition random_move :: "cr_CleaningSimulation \<Rightarrow> agent_id \<Rightarrow> error + cr_CleaningSimulation" where
  "random_move s r =
     (case agent_pos (cr_grid s) r of
        None \<Rightarrow> Inl TypeError
      | Some p \<Rightarrow>
          (let adjacent_cells = get_neighborhood (cr_grid s) p
           in (case random_choice (cr_random s) adjacent_cells of
                 Inl e \<Rightarrow> Inl e
               | Inr (next_position, g1) \<Rightarrow>
                   (case move_agent (cr_grid s) r next_position of
                      Inl e \<Rightarrow> Inl e
                    | Inr gr \<Rightarrow> Inr (s\<lparr>cr_random := g1, cr_grid := gr\<rparr>)))))"

definition cr_CleaningRobot_step :: "cr_CleaningSimulation \<Rightarrow> agent_id \<Rightarrow> error + cr_CleaningSimulation" where
  "cr_CleaningRobot_step s r =
     (case agent_pos (cr_grid s) r of
        None \<Rightarrow> Inl TypeError
      | Some p \<Rightarrow>
          (case find (cr_is_dirty_tile s) (get_cell_list_contents (cr_grid s) p) of
             Some obj \<Rightarrow> Inr (s\<lparr>cr_agents := (cr_agents s)(obj \<mapsto> cr_GridTile 0)\<rparr>)
           | None \<Rightarrow> random_move s r))"

definition cr_agent_step :: "cr_CleaningSimulation \<Rightarrow> agent_id \<Rightarrow> error + cr_CleaningSimulation" where
  "cr_agent_step s a =
     (case cr_agents s a of
        Some cr_CleaningRobot \<Rightarrow> cr_CleaningRobot_step s a
      | _ \<Rightarrow> Inr s)"

type_synonym cr_outcome = "cr_CleaningSimulation \<times> error option"

fun cr_activate :: "cr_CleaningSimulation \<Rightarrow> agent_id list \<Rightarrow> cr_outcome" where
  "cr_activate s [] = (s, None)"
| "cr_activate s (a # as) =
     (case cr_agent_step s a of
        Inl e \<Rightarrow> (s, Some e)
      | Inr s1 \<Rightarrow> cr_activate s1 as)"

definition cr_schedule_step :: "cr_CleaningSimulation \<Rightarrow> cr_outcome" where
  "cr_schedule_step s =
     (case random_shuffle (cr_random s) (cr_schedule s) of
        (order, g1) \<Rightarrow> cr_activate (s\<lparr>cr_random := g1\<rparr>) order)"

text \<open>\<open>CleaningSimulation.step\<close> of cleaning\_robot.py.\<close>

definition cr_step :: "cr_CleaningSimulation \<Rightarrow> cr_outcome" where
  "cr_step s =
     (if steps_remaining s \<le> 0 then (s\<lparr>cr_running := False\<rparr>, None)
      else (case cr_schedule_step s of
              (s1, Some e) \<Rightarrow> (s1, Some e)
            | (s1, None) \<Rightarrow> (s1\<lparr>steps_remaining := steps_remaining s1 - 1\<rparr>, None)))"

fun cr_createTiles :: "coord list \<Rightarrow> coord list \<Rightarrow> cr_CleaningSimulation \<Rightarrow> error + cr_CleaningSimulation" where
  "cr_createTiles dirty_positions [] s = Inr s"
| "cr_createTiles dirty_positions (c # cs) s =
     (let tile_status = (if c \<in> set dirty_positions then 1 else 0);
          tile = tile_of c
      in (case place_agent (cr_grid s) tile c of
            Inl e \<Rightarrow> Inl e
          | Inr gr \<Rightarrow>
              cr_createTiles dirty_positions cs
                (s\<lparr>cr_agents := (cr_agents s)(tile \<mapsto> cr_GridTile tile_status), cr_grid := gr\<rparr>)))"

fun cr_placeRobots :: "int list \<Rightarrow> cr_CleaningSimulation \<Rightarrow> error + cr_CleaningSimulation" where
  "cr_placeRobots [] s = Inr s"
| "cr_placeRobots (i # is) s =
     (let robot = robot_id i;
          initial_position = (1, 1);
          s1 = s\<lparr>cr_agents := (cr_agents s)(robot \<mapsto> cr_CleaningRobot),
                 cr_schedule := cr_schedule s @ [robot]\<rparr>
      in (case place_agent (cr_grid s1) robot initial_position of
            Inl e \<Rightarrow> Inl e
          | Inr gr \<Rightarrow> cr_placeRobots is (s1\<lparr>cr_grid := gr\<rparr>)))"

text \<open>
  \<open>CleaningSimulation.__init__\<close> of cleaning\_robot.py, with the generators it reads as
  arguments. The flag \<open>running\<close> is set by the constructor of Mesa's \<open>Model\<close>.
\<close>

definition cr_init ::
  "int \<Rightarrow> int \<Rightarrow> int \<Rightarrow> int \<Rightarrow> rat \<Rightarrow> rng \<Rightarrow> rng \<Rightarrow> error + (cr_CleaningSimulation \<times> rng)" where
  "cr_init robot_count grid_width grid_height steps dirt_percentage own glob =
     (let s = \<lparr>cr_running = True, steps_remaining = steps,
                cr_grid = MultiGrid grid_width grid_height, cr_schedule = [],
                cr_agents = (\<lambda>a. None), cr_random = own\<rparr>;
          total_tiles = grid_width * grid_height
      in (case int_of_product total_tiles dirt_percentage of
            Inl e \<Rightarrow> Inl e
          | Inr dirty_tiles \<Rightarrow>
              (case random_sample glob (all_coords grid_width grid_height) dirty_tiles of
                 Inl e \<Rightarrow> Inl e
               | Inr (dirty_positions, glob1) \<Rightarrow>
                   (case cr_createTiles dirty_positions (all_coords grid_width grid_height) s of
                      Inl e \<Rightarrow> Inl e
                    | Inr s1 \<Rightarrow>
                        (case cr_placeRobots (py_range robot_count) s1 of
                           Inl e \<Rightarrow> Inl e
                         | Inr s2 \<Rightarrow> Inr (s2, glob1))))))"

fun cr_run :: "cr_CleaningSimulation \<Rightarrow> nat \<Rightarrow> cr_CleaningSimulation" where
  "cr_run s 0 = s"
| "cr_run s (Suc n) = cr_run (fst (cr_step s)) n"


definition cr_dirty_at :: "cr_CleaningSimulation \<Rightarrow> coord \<Rightarrow> agent_id list" where
  "cr_dirty_at s p = filter (cr_is_dirty_tile s) (get_cell_list_contents (cr_grid s) p)"


section \<open>Invariants of the constructed simulation\<close>

text \<open>
  Every coordinate of the grid holds exactly the tile created for it, and no other cell
  holds a tile.
\<close>

definition tiles_in_place :: "CleaningSimulation \<Rightarrow> bool" where
  "tiles_in_place s =
     (\<forall>p. tiles_at s p =
        (if p \<in> set (all_coords (gridWidth s) (gridHeight s)) then [tile_of p] else []))"

text \<open>What no step changes, and what a step can only increase.\<close>

definition evolves :: "CleaningSimulation \<Rightarrow> CleaningSimulation \<Rightarrow> bool" where
  "evolves s s' =
     (robotCount s' = robotCount s \<and> gridWidth s' = gridWidth s \<and> gridHeight s' = gridHeight s \<and>
      maxTime s' = maxTime s \<and> startTime s' = startTime s \<and> dirtPercentage s' = dirtPercentage s \<and>
      schedule s' = schedule s \<and> initialDirtyCells s' = initialDirtyCells s \<and>
      width (grid s') = width (grid s) \<and> height (grid s') = height (grid s) \<and>
      cleanCells s \<le> cleanCells s' \<and> stepsExecuted s \<le> stepsExecuted s' \<and>
      (running s' \<longrightarrow> running s))"

text \<open>
  The counter \<open>cleanCells\<close> and the dirty tiles left on the grid add up to the initial
  count.
\<close>

definition sim_inv :: "CleaningSimulation \<Rightarrow> bool" where
  "sim_inv s =
     (tiles_in_place s \<and> cleanCells s + int (length (dirtyTiles s)) = initialDirtyCells s)"

section \<open>Ranges, coordinates and sampling\<close>

lemma set_py_range: "set (py_range n) = {0..<n}"
  by (auto simp: py_range_def)

lemma distinct_py_range: "distinct (py_range n)"
  by (simp add: py_range_def)

lemma length_py_range: "length (py_range n) = nat n"
  by (simp add: py_range_def)

lemma set_all_coords:
  "set (all_coords w h) = {p. 0 \<le> fst p \<and> fst p < w \<and> 0 \<le> snd p \<and> snd p < h}"
  by (auto simp: all_coords_def set_py_range)

lemma all_coords_product: "all_coords w h = List.product (py_range w) (py_range h)"
  by (simp add: all_coords_def product_concat_map)

lemma distinct_all_coords: "distinct (all_coords w h)"
  by (simp add: all_coords_product distinct_product distinct_py_range)

lemma length_all_coords: "length (all_coords w h) = nat w * nat h"
  by (simp add: all_coords_def length_concat comp_def length_py_range sum_list_triv)

lemma fst_sample_loop_Suc:
  "fst (sample_loop g pool (Suc k)) =
     pool ! (g 0 mod length pool) #
     fst (sample_loop (\<lambda>i. g (Suc i))
            (take (g 0 mod length pool) pool @ drop (Suc (g 0 mod length pool)) pool) k)"
  by (simp add: randbelow_def split: prod.splits)

lemma length_sample_loop: "length (fst (sample_loop g pool k)) = k"
  by (induction k arbitrary: g pool) (simp_all add: fst_sample_loop_Suc del: sample_loop.simps(2))

lemma set_sample_loop:
  "k \<le> length pool \<Longrightarrow> set (fst (sample_loop g pool k)) \<subseteq> set pool"
proof (induction k arbitrary: g pool)
  case 0
  then show ?case by simp
next
  case (Suc k)
  let ?j = "g 0 mod length pool"
  let ?rest = "take ?j pool @ drop (Suc ?j) pool"
  from Suc.prems have ne: "0 < length pool" by auto
  then have j: "?j < length pool" by simp
  have "length ?rest = length pool - 1" using j by simp
  with Suc.prems have "k \<le> length ?rest" by simp
  from Suc.IH [OF this] have "set (fst (sample_loop (\<lambda>i. g (Suc i)) ?rest k)) \<subseteq> set ?rest" .
  moreover have "set ?rest \<subseteq> set pool"
    by (auto dest: in_set_takeD in_set_dropD)
  ultimately show ?case using j
    by (auto simp: fst_sample_loop_Suc simp del: sample_loop.simps(2))
qed

lemma distinct_sample_loop:
  "k \<le> length pool \<Longrightarrow> distinct pool \<Longrightarrow> distinct (fst (sample_loop g pool k))"
proof (induction k arbitrary: g pool)
  case 0
  then show ?case by simp
next
  case (Suc k)
  let ?j = "g 0 mod length pool"
  let ?rest = "take ?j pool @ drop (Suc ?j) pool"
  from Suc.prems have ne: "0 < length pool" by auto
  then have j: "?j < length pool" by simp
  have len: "length ?rest = length pool - 1" using j by simp
  with Suc.prems have k: "k \<le> length ?rest" by simp
  have pool: "pool = take ?j pool @ pool ! ?j # drop (Suc ?j) pool"
    using j by (simp add: id_take_nth_drop)
  have d: "distinct (take ?j pool @ pool ! ?j # drop (Suc ?j) pool)"
    using Suc.prems(2) pool by simp
  then have dr: "distinct ?rest" and notin: "pool ! ?j \<notin> set ?rest"
    by auto
  from Suc.IH [OF k dr] set_sample_loop [OF k, of "\<lambda>i. g (Suc i)"] notin show ?case
    by (auto simp: fst_sample_loop_Suc simp del: sample_loop.simps(2))
qed

section \<open>Construction: which configurations are accepted\<close>

lemma out_of_bounds_update [simp]:
  "out_of_bounds (g\<lparr>cells := c, agent_pos := q\<rparr>) p = out_of_bounds g p"
  by (simp add: out_of_bounds_def)

lemma createTiles_fields:
  "createTiles d cs s = Inr s' \<Longrightarrow>
     running s' = running s \<and> robotCount s' = robotCount s \<and> gridWidth s' = gridWidth s \<and>
     gridHeight s' = gridHeight s \<and> maxTime s' = maxTime s \<and> startTime s' = startTime s \<and>
     dirtPercentage s' = dirtPercentage s \<and> schedule s' = schedule s \<and>
     cleanCells s' = cleanCells s \<and> initialDirtyCells s' = initialDirtyCells s \<and>
     stepsExecuted s' = stepsExecuted s \<and> random s' = random s \<and>
     width (grid s') = width (grid s) \<and> height (grid s') = height (grid s)"
  by (induction cs arbitrary: s)
     (auto simp: Let_def place_agent_def split: sum.splits if_splits)

lemma createTiles_succeeds:
  "\<forall>c\<in>set cs. \<not> out_of_bounds (grid s) c \<Longrightarrow> \<exists>s'. createTiles d cs s = Inr s'"
  by (induction cs arbitrary: s)
     (auto simp: Let_def place_agent_def split: sum.splits if_splits)

lemma createTiles_agents:
  "createTiles d cs s = Inr s' \<Longrightarrow>
     agents s' a =
       (case a of
          tile_id x y \<Rightarrow>
            if (x, y) \<in> set cs then Some (GridTile (if (x, y) \<in> set d then 1 else 0))
            else agents s a
        | robot_id i \<Rightarrow> agents s a)"
  by (induction cs arbitrary: s)
     (auto simp: Let_def place_agent_def tile_of_def split: sum.splits if_splits agent_id.splits)

lemma createTiles_cells:
  "distinct cs \<Longrightarrow> createTiles d cs s = Inr s' \<Longrightarrow>
     cells (grid s') p = cells (grid s) p @ (if p \<in> set cs then [tile_of p] else [])"
  by (induction cs arbitrary: s)
     (auto simp: Let_def place_agent_def split: sum.splits if_splits)

lemma createTiles_agent_pos:
  "createTiles d cs s = Inr s' \<Longrightarrow>
     agent_pos (grid s') a =
       (case a of
          tile_id x y \<Rightarrow> if (x, y) \<in> set cs then Some (x, y) else agent_pos (grid s) a
        | robot_id i \<Rightarrow> agent_pos (grid s) a)"
  by (induction cs arbitrary: s)
     (auto simp: Let_def place_agent_def tile_of_def split: sum.splits if_splits agent_id.splits)


lemma placeRobots_fields:
  "placeRobots is s = Inr s' \<Longrightarrow>
     running s' = running s \<and> robotCount s' = robotCount s \<and> gridWidth s' = gridWidth s \<and>
     gridHeight s' = gridHeight s \<and> maxTime s' = maxTime s \<and> startTime s' = startTime s \<and>
     dirtPercentage s' = dirtPercentage s \<and> schedule s' = schedule s @ map robot_id is \<and>
     cleanCells s' = cleanCells s \<and> initialDirtyCells s' = initialDirtyCells s \<and>
     stepsExecuted s' = stepsExecuted s \<and> random s' = random s \<and>
     width (grid s') = width (grid s) \<and> height (grid s') = height (grid s)"
  by (induction "is" arbitrary: s)
     (auto simp: Let_def place_agent_def split: sum.splits if_splits)

lemma placeRobots_succeeds:
  "\<not> out_of_bounds (grid s) (1, 1) \<Longrightarrow> \<exists>s'. placeRobots is s = Inr s'"
  by (induction "is" arbitrary: s)
     (auto simp: Let_def place_agent_def split: sum.splits if_splits)

lemma placeRobots_fails:
  "out_of_bounds (grid s) (1, 1) \<Longrightarrow> is \<noteq> [] \<Longrightarrow> placeRobots is s = Inl IndexError"
  by (cases "is") (auto simp: Let_def place_agent_def)

lemma placeRobots_agents:
  "placeRobots is s = Inr s' \<Longrightarrow>
     agents s' a =
       (case a of
          tile_id x y \<Rightarrow> agents s a
        | robot_id i \<Rightarrow> if i \<in> set is then Some (CleaningRobot 0 0) else agents s a)"
  by (induction "is" arbitrary: s)
     (auto simp: Let_def place_agent_def split: sum.splits if_splits agent_id.splits)

lemma placeRobots_cells:
  "placeRobots is s = Inr s' \<Longrightarrow>
     cells (grid s') p = cells (grid s) p @ (if p = (1, 1) then map robot_id is else [])"
  by (induction "is" arbitrary: s)
     (auto simp: Let_def place_agent_def split: sum.splits if_splits)

lemma placeRobots_agent_pos:
  "placeRobots is s = Inr s' \<Longrightarrow>
     agent_pos (grid s') a =
       (case a of
          tile_id x y \<Rightarrow> agent_pos (grid s) a
        | robot_id i \<Rightarrow> if i \<in> set is then Some (1, 1) else agent_pos (grid s) a)"
  by (induction "is" arbitrary: s)
     (auto simp: Let_def place_agent_def split: sum.splits if_splits agent_id.splits)


lemma all_coords_in_bounds:
  "c \<in> set (all_coords w h) \<Longrightarrow> \<not> out_of_bounds (MultiGrid w h :: agent_id multigrid) c"
  by (auto simp: set_all_coords out_of_bounds_def MultiGrid_def)

lemma py_range_nonempty: "py_range n \<noteq> [] \<longleftrightarrow> 1 \<le> n"
  by (auto simp: py_range_def upto_Nil)

lemma init_raises:
  assumes "int_of_product (w * h) dp = Inl e"
  shows "CleaningSimulation_init w h rc dp mt now own glob = Inl e"
  using assms by (simp add: CleaningSimulation_init_def)

lemma init_count:
  assumes "CleaningSimulation_init w h rc dp mt now own glob = Inr (s, g)"
  obtains k where "int_of_product (w * h) dp = Inr k"
  using assms by (cases "int_of_product (w * h) dp") (simp_all add: init_raises)

lemma init_ValueError:
  assumes "k < 0 \<or> int (nat w * nat h) < k"
      and k: "int_of_product (w * h) dp = Inr k"
  shows "CleaningSimulation_init w h rc dp mt now own glob = Inl ValueError"
  using assms
  by (simp add: CleaningSimulation_init_def setupEnvironment_def random_sample_def length_all_coords)

lemma init_tiles:
  assumes "0 \<le> k"
      and "k \<le> int (nat w * nat h)"
  shows "\<exists>s1. createTiles (fst (sample_loop glob (all_coords w h) (nat (k))))
                 (all_coords w h)
                 \<lparr>running = True, robotCount = rc, gridWidth = w, gridHeight = h, maxTime = mt,
                  startTime = now, dirtPercentage = dp, grid = MultiGrid w h, schedule = [],
                  cleanCells = 0, initialDirtyCells = k,
                  stepsExecuted = 0, agents = (\<lambda>a. None), random = own\<rparr> = Inr s1"
  by (rule createTiles_succeeds) (simp add: all_coords_in_bounds)

lemma init_unfold:
  assumes "0 \<le> k"
      and "k \<le> int (nat w * nat h)"
      and "createTiles (fst (sample_loop glob (all_coords w h) (nat (k))))
                 (all_coords w h)
                 \<lparr>running = True, robotCount = rc, gridWidth = w, gridHeight = h, maxTime = mt,
                  startTime = now, dirtPercentage = dp, grid = MultiGrid w h, schedule = [],
                  cleanCells = 0, initialDirtyCells = k,
                  stepsExecuted = 0, agents = (\<lambda>a. None), random = own\<rparr> = Inr s1"
      and k: "int_of_product (w * h) dp = Inr k"
  shows "CleaningSimulation_init w h rc dp mt now own glob =
           (case placeRobots (py_range rc) s1 of
              Inl e \<Rightarrow> Inl e
            | Inr s2 \<Rightarrow> Inr (s2, snd (sample_loop glob (all_coords w h) (nat (k)))))"
  using assms createTiles_fields [OF assms(3)]
  by (simp add: CleaningSimulation_init_def setupEnvironment_def random_sample_def length_all_coords
        case_prod_beta)

lemma init_IndexError:
  assumes "0 \<le> k"
      and "k \<le> int (nat w * nat h)"
      and "1 \<le> rc" and "w < 2 \<or> h < 2"
      and k: "int_of_product (w * h) dp = Inr k"
  shows "CleaningSimulation_init w h rc dp mt now own glob = Inl IndexError"
proof -
  from init_tiles [OF assms(1,2)] obtain s1 where
    s1: "createTiles (fst (sample_loop glob (all_coords w h) (nat (k))))
                 (all_coords w h)
                 \<lparr>running = True, robotCount = rc, gridWidth = w, gridHeight = h, maxTime = mt,
                  startTime = now, dirtPercentage = dp, grid = MultiGrid w h, schedule = [],
                  cleanCells = 0, initialDirtyCells = k,
                  stepsExecuted = 0, agents = (\<lambda>a. None), random = own\<rparr> = Inr s1"
    by blast
  from createTiles_fields [OF s1] have "width (grid s1) = w" "height (grid s1) = h"
    by (simp_all add: MultiGrid_def)
  with assms(4) have "out_of_bounds (grid s1) (1, 1)"
    by (auto simp: out_of_bounds_def)
  then have "placeRobots (py_range rc) s1 = Inl IndexError"
    using assms(3) by (simp add: placeRobots_fails py_range_nonempty)
  then show ?thesis
    by (simp add: init_unfold [OF assms(1,2) s1 k])
qed

lemma init_succeeds:
  assumes "0 \<le> k"
      and "k \<le> int (nat w * nat h)"
      and "rc \<le> 0 \<or> (2 \<le> w \<and> 2 \<le> h)"
      and k: "int_of_product (w * h) dp = Inr k"
  shows "\<exists>s g. CleaningSimulation_init w h rc dp mt now own glob = Inr (s, g)"
proof -
  from init_tiles [OF assms(1,2)] obtain s1 where
    s1: "createTiles (fst (sample_loop glob (all_coords w h) (nat (k))))
                 (all_coords w h)
                 \<lparr>running = True, robotCount = rc, gridWidth = w, gridHeight = h, maxTime = mt,
                  startTime = now, dirtPercentage = dp, grid = MultiGrid w h, schedule = [],
                  cleanCells = 0, initialDirtyCells = k,
                  stepsExecuted = 0, agents = (\<lambda>a. None), random = own\<rparr> = Inr s1"
    by blast
  from createTiles_fields [OF s1] have wh: "width (grid s1) = w" "height (grid s1) = h"
    by (simp_all add: MultiGrid_def)
  have "\<exists>s2. placeRobots (py_range rc) s1 = Inr s2"
  proof (cases "rc \<le> 0")
    case True
    then have "py_range rc = []" by (simp add: py_range_def)
    then show ?thesis by simp
  next
    case False
    with assms(3) wh have "\<not> out_of_bounds (grid s1) (1, 1)"
      by (auto simp: out_of_bounds_def)
    then show ?thesis by (rule placeRobots_succeeds)
  qed
  then show ?thesis
    by (auto simp: init_unfold [OF assms(1,2) s1 k])
qed


lemma cr_createTiles_fields:
  "cr_createTiles d cs s = Inr s' \<Longrightarrow>
     cr_running s' = cr_running s \<and> steps_remaining s' = steps_remaining s \<and>
     cr_schedule s' = cr_schedule s \<and> cr_random s' = cr_random s \<and>
     width (cr_grid s') = width (cr_grid s) \<and> height (cr_grid s') = height (cr_grid s)"
  by (induction cs arbitrary: s)
     (auto simp: Let_def place_agent_def split: sum.splits if_splits)

lemma cr_createTiles_succeeds:
  "\<forall>c\<in>set cs. \<not> out_of_bounds (cr_grid s) c \<Longrightarrow> \<exists>s'. cr_createTiles d cs s = Inr s'"
  by (induction cs arbitrary: s)
     (auto simp: Let_def place_agent_def split: sum.splits if_splits)



lemma cr_placeRobots_fields:
  "cr_placeRobots is s = Inr s' \<Longrightarrow>
     cr_running s' = cr_running s \<and> steps_remaining s' = steps_remaining s \<and>
     cr_schedule s' = cr_schedule s @ map robot_id is \<and> cr_random s' = cr_random s \<and>
     width (cr_grid s') = width (cr_grid s) \<and> height (cr_grid s') = height (cr_grid s)"
  by (induction "is" arbitrary: s)
     (auto simp: Let_def place_agent_def split: sum.splits if_splits)

lemma cr_placeRobots_succeeds:
  "\<not> out_of_bounds (cr_grid s) (1, 1) \<Longrightarrow> \<exists>s'. cr_placeRobots is s = Inr s'"
  by (induction "is" arbitrary: s)
     (auto simp: Let_def place_agent_def split: sum.splits if_splits)

lemma cr_placeRobots_fails:
  "out_of_bounds (cr_grid s) (1, 1) \<Longrightarrow> is \<noteq> [] \<Longrightarrow> cr_placeRobots is s = Inl IndexError"
  by (cases "is") (auto simp: Let_def place_agent_def)



lemma cr_init_raises:
  assumes "int_of_product (w * h) dp = Inl e"
  shows "cr_init rc w h n dp own glob = Inl e"
  using assms by (simp add: cr_init_def Let_def)


lemma cr_init_ValueError:
  assumes "k < 0 \<or> int (nat w * nat h) < k"
      and k: "int_of_product (w * h) dp = Inr k"
  shows "cr_init rc w h n dp own glob = Inl ValueError"
  using assms
  by (simp add: cr_init_def random_sample_def length_all_coords Let_def)

lemma cr_init_tiles:
  "\<exists>s1. cr_createTiles d (all_coords w h)
          \<lparr>cr_running = True, steps_remaining = n, cr_grid = MultiGrid w h, cr_schedule = [],
           cr_agents = (\<lambda>a. None), cr_random = own\<rparr> = Inr s1"
  by (rule cr_createTiles_succeeds) (simp add: all_coords_in_bounds)

lemma cr_init_unfold:
  assumes "0 \<le> k"
      and "k \<le> int (nat w * nat h)"
      and "cr_createTiles (fst (sample_loop glob (all_coords w h) (nat (k))))
             (all_coords w h)
             \<lparr>cr_running = True, steps_remaining = n, cr_grid = MultiGrid w h, cr_schedule = [],
              cr_agents = (\<lambda>a. None), cr_random = own\<rparr> = Inr s1"
      and k: "int_of_product (w * h) dp = Inr k"
  shows "cr_init rc w h n dp own glob =
           (case cr_placeRobots (py_range rc) s1 of
              Inl e \<Rightarrow> Inl e
            | Inr s2 \<Rightarrow> Inr (s2, snd (sample_loop glob (all_coords w h) (nat (k)))))"
  using assms
  by (simp add: cr_init_def random_sample_def length_all_coords case_prod_beta Let_def)

lemma cr_init_IndexError:
  assumes "0 \<le> k"
      and "k \<le> int (nat w * nat h)"
      and "1 \<le> rc" and "w < 2 \<or> h < 2"
      and k: "int_of_product (w * h) dp = Inr k"
  shows "cr_init rc w h n dp own glob = Inl IndexError"
proof -
  from cr_init_tiles obtain s1 where
    s1: "cr_createTiles (fst (sample_loop glob (all_coords w h) (nat (k))))
             (all_coords w h)
             \<lparr>cr_running = True, steps_remaining = n, cr_grid = MultiGrid w h, cr_schedule = [],
              cr_agents = (\<lambda>a. None), cr_random = own\<rparr> = Inr s1"
    by blast
  from cr_createTiles_fields [OF s1] have "width (cr_grid s1) = w" "height (cr_grid s1) = h"
    by (simp_all add: MultiGrid_def)
  with assms(4) have "out_of_bounds (cr_grid s1) (1, 1)"
    by (auto simp: out_of_bounds_def)
  then have "cr_placeRobots (py_range rc) s1 = Inl IndexError"
    using assms(3) by (simp add: cr_placeRobots_fails py_range_nonempty)
  then show ?thesis
    by (simp add: cr_init_unfold [OF assms(1,2) s1 k])
qed

lemma cr_init_succeeds:
  assumes "0 \<le> k"
      and "k \<le> int (nat w * nat h)"
      and "rc \<le> 0 \<or> (2 \<le> w \<and> 2 \<le> h)"
      and k: "int_of_product (w * h) dp = Inr k"
  shows "\<exists>s g. cr_init rc w h n dp own glob = Inr (s, g)"
proof -
  from cr_init_tiles obtain s1 where
    s1: "cr_createTiles (fst (sample_loop glob (all_coords w h) (nat (k))))
             (all_coords w h)
             \<lparr>cr_running = True, steps_remaining = n, cr_grid = MultiGrid w h, cr_schedule = [],
              cr_agents = (\<lambda>a. None), cr_random = own\<rparr> = Inr s1"
    by blast
  from cr_createTiles_fields [OF s1] have wh: "width (cr_grid s1) = w" "height (cr_grid s1) = h"
    by (simp_all add: MultiGrid_def)
  have "\<exists>s2. cr_placeRobots (py_range rc) s1 = Inr s2"
  proof (cases "rc \<le> 0")
    case True
    then have "py_range rc = []" by (simp add: py_range_def)
    then show ?thesis by simp
  next
    case False
    with assms(3) wh have "\<not> out_of_bounds (cr_grid s1) (1, 1)"
      by (auto simp: out_of_bounds_def)
    then show ?thesis by (rule cr_placeRobots_succeeds)
  qed
  then show ?thesis
    by (auto simp: cr_init_unfold [OF assms(1,2) s1 k])
qed

section \<open>Robot steps and the invariants they keep\<close>

lemma tiles_in_placeD:
  "tiles_in_place s \<Longrightarrow>
     tiles_at s p = (if p \<in> set (all_coords (gridWidth s) (gridHeight s)) then [tile_of p] else [])"
  unfolding tiles_in_place_def by blast

lemma is_dirty_is_tile: "is_dirty_tile s a \<Longrightarrow> is_tile s a"
  by (auto simp: is_dirty_tile_def is_tile_def split: option.splits agent.splits)

lemma dirty_at_tiles_at: "dirty_at s p = filter (is_dirty_tile s) (tiles_at s p)"
  unfolding dirty_at_def tiles_at_def filter_filter
  by (rule filter_cong) (auto dest: is_dirty_is_tile)

lemma concat_map_if:
  "concat (map (\<lambda>p. if D p then [f p] else []) xs) = map f (filter D xs)"
  by (induction xs) auto

lemma dirtyTiles_in_place:
  assumes "tiles_in_place s"
  shows "dirtyTiles s =
           map tile_of (filter (\<lambda>p. is_dirty_tile s (tile_of p))
                          (all_coords (gridWidth s) (gridHeight s)))"
proof -
  have eq: "map (dirty_at s) (all_coords (gridWidth s) (gridHeight s)) =
        map (\<lambda>p. if is_dirty_tile s (tile_of p) then [tile_of p] else [])
          (all_coords (gridWidth s) (gridHeight s))"
    using assms by (auto simp: dirty_at_tiles_at tiles_in_placeD)
  show ?thesis
    unfolding dirtyTiles_def eq by (rule concat_map_if)
qed

lemma length_filter_remove:
  "distinct xs \<Longrightarrow> x \<in> set xs \<Longrightarrow> P x \<Longrightarrow>
     length (filter (\<lambda>q. P q \<and> q \<noteq> x) xs) + 1 = length (filter P xs)"
proof (induction xs)
  case Nil
  then show ?case by simp
next
  case (Cons y ys)
  show ?case
  proof (cases "y = x")
    case True
    with Cons.prems have "x \<notin> set ys" by simp
    then have "filter (\<lambda>q. P q \<and> q \<noteq> x) ys = filter P ys"
      by (intro filter_cong) auto
    with True Cons.prems show ?thesis by simp
  next
    case False
    with Cons show ?thesis by auto
  qed
qed

lemma inj_tile_of: "tile_of p = tile_of q \<longleftrightarrow> p = q"
  by (auto simp: tile_of_def prod_eq_iff)


lemma clean_case:
  assumes "agents s r = Some (CleaningRobot c m)"
      and "agent_pos (grid s) r = Some p"
      and "find (is_dirty_tile s) (get_cell_list_contents (grid s) p) = Some obj"
  shows "CleaningRobot_step s r =
           Inr (s\<lparr>agents := (agents s)(obj \<mapsto> GridTile 0, r \<mapsto> CleaningRobot (c + 1) m),
                  cleanCells := cleanCells s + 1\<rparr>)"
  using assms by (simp add: CleaningRobot_step_def)

lemma find_dirty_SomeD:
  "find (is_dirty_tile s) xs = Some obj \<Longrightarrow> obj \<in> set xs \<and> is_dirty_tile s obj"
  by (auto simp: find_Some_iff)

lemma valid_cells_in_bounds:
  "c \<in> set (filter (\<lambda>cell. 0 \<le> fst cell \<and> fst cell < width g \<and> 0 \<le> snd cell \<and> snd cell < height g) xs)
     \<Longrightarrow> \<not> out_of_bounds g c"
  by (auto simp: out_of_bounds_def)

lemma random_choice_Inr:
  "xs \<noteq> [] \<Longrightarrow>
     random_choice g xs = Inr (xs ! (g 0 mod length xs), \<lambda>i. g (Suc i))
     \<and> xs ! (g 0 mod length xs) \<in> set xs"
  by (simp add: random_choice_def randbelow_def)

lemma move_agent_Inr:
  "agent_pos g a = Some p \<Longrightarrow> \<not> out_of_bounds g q \<Longrightarrow>
     move_agent g a q =
       Inr (g\<lparr>cells := ((cells g)(p := remove1 a (cells g p)))
                          (q := ((cells g)(p := remove1 a (cells g p))) q @ [a]),
               agent_pos := (agent_pos g)(a \<mapsto> q)\<rparr>)"
  by (simp add: move_agent_def remove_agent_def place_agent_def out_of_bounds_def)

text \<open>What a move does: the robot, and only the robot, changes cell.\<close>

lemma randomMove_cases:
  assumes "agents s r = Some (CleaningRobot c m)"
      and "agent_pos (grid s) r = Some p"
  shows "randomMove s r = Inr s \<or>
         (\<exists>q. \<not> out_of_bounds (grid s) q \<and> q \<in> set (get_neighborhood (grid s) p) \<and>
            randomMove s r =
              Inr (s\<lparr>random := (\<lambda>i. random s (Suc i)),
                     grid := (grid s)\<lparr>cells := ((cells (grid s))(p := remove1 r (cells (grid s) p)))
                                   (q := ((cells (grid s))(p := remove1 r (cells (grid s) p))) q @ [r]),
                                agent_pos := (agent_pos (grid s))(r \<mapsto> q)\<rparr>,
                     agents := (agents s)(r \<mapsto> CleaningRobot c (m + 1))\<rparr>))"
proof -
  let ?valid = "filter (\<lambda>cell. 0 \<le> fst cell \<and> fst cell < width (grid s)
                               \<and> 0 \<le> snd cell \<and> snd cell < height (grid s))
                  (get_neighborhood (grid s) p)"
  show ?thesis
  proof (cases "?valid = []")
    case True
    with assms show ?thesis by (simp add: randomMove_def)
  next
    case False
    let ?q = "?valid ! (random s 0 mod length ?valid)"
    from random_choice_Inr [OF False, of "random s"] have
      ch: "random_choice (random s) ?valid = Inr (?q, \<lambda>i. random s (Suc i))"
      and mem: "?q \<in> set ?valid"
      by simp_all
    from mem have inb: "\<not> out_of_bounds (grid s) ?q" by (rule valid_cells_in_bounds)
    from mem have nb: "?q \<in> set (get_neighborhood (grid s) p)" by simp
    have "randomMove s r =
              Inr (s\<lparr>random := (\<lambda>i. random s (Suc i)),
                     grid := (grid s)\<lparr>cells := ((cells (grid s))(p := remove1 r (cells (grid s) p)))
                                   (?q := ((cells (grid s))(p := remove1 r (cells (grid s) p))) ?q @ [r]),
                                agent_pos := (agent_pos (grid s))(r \<mapsto> ?q)\<rparr>,
                     agents := (agents s)(r \<mapsto> CleaningRobot c (m + 1))\<rparr>)"
      using assms False ch move_agent_Inr [OF assms(2) inb]
      by (simp add: randomMove_def Let_def)
    with inb nb show ?thesis by blast
  qed
qed


lemma agent_step_cases:
  assumes "agent_step s a = Inr s'"
  shows "s' = s
       \<or> (\<exists>c m p obj. agents s a = Some (CleaningRobot c m) \<and> agent_pos (grid s) a = Some p
             \<and> obj \<in> set (cells (grid s) p) \<and> is_dirty_tile s obj
             \<and> s' = s\<lparr>agents := (agents s)(obj \<mapsto> GridTile 0, a \<mapsto> CleaningRobot (c + 1) m),
                        cleanCells := cleanCells s + 1\<rparr>)
       \<or> (\<exists>c m p q. agents s a = Some (CleaningRobot c m) \<and> agent_pos (grid s) a = Some p
             \<and> \<not> out_of_bounds (grid s) q \<and> q \<in> set (get_neighborhood (grid s) p)
             \<and> s' = s\<lparr>random := (\<lambda>i. random s (Suc i)),
                     grid := (grid s)\<lparr>cells := ((cells (grid s))(p := remove1 a (cells (grid s) p)))
                                   (q := ((cells (grid s))(p := remove1 a (cells (grid s) p))) q @ [a]),
                                agent_pos := (agent_pos (grid s))(a \<mapsto> q)\<rparr>,
                     agents := (agents s)(a \<mapsto> CleaningRobot c (m + 1))\<rparr>)"
proof (cases "agents s a")
  case None
  with assms show ?thesis by (simp add: agent_step_def)
next
  case (Some ag)
  show ?thesis
  proof (cases ag)
    case (GridTile st)
    with Some assms show ?thesis by (simp add: agent_step_def)
  next
    case (CleaningRobot c m)
    with Some have rob: "agents s a = Some (CleaningRobot c m)" by simp
    with assms have st: "CleaningRobot_step s a = Inr s'" by (simp add: agent_step_def)
    then obtain p where p: "agent_pos (grid s) a = Some p"
      by (auto simp: CleaningRobot_step_def split: option.splits)
    show ?thesis
    proof (cases "find (is_dirty_tile s) (get_cell_list_contents (grid s) p)")
      case (Some obj)
      from find_dirty_SomeD [OF this] have "obj \<in> set (cells (grid s) p)" "is_dirty_tile s obj"
        by (simp_all add: get_cell_list_contents_def)
      moreover from clean_case [OF rob p Some] st
      have "s' = s\<lparr>agents := (agents s)(obj \<mapsto> GridTile 0, a \<mapsto> CleaningRobot (c + 1) m),
                        cleanCells := cleanCells s + 1\<rparr>"
        by simp
      ultimately show ?thesis using rob p by blast
    next
      case None
      with st p have rm: "randomMove s a = Inr s'" by (simp add: CleaningRobot_step_def)
      from randomMove_cases [OF rob p] show ?thesis
      proof (elim disjE exE conjE)
        assume "randomMove s a = Inr s"
        with rm show ?thesis by simp
      next
        fix q
        assume oob: "\<not> out_of_bounds (grid s) q" and nb: "q \<in> set (get_neighborhood (grid s) p)"
          and eq: "randomMove s a =
              Inr (s\<lparr>random := (\<lambda>i. random s (Suc i)),
                     grid := (grid s)\<lparr>cells := ((cells (grid s))(p := remove1 a (cells (grid s) p)))
                                   (q := ((cells (grid s))(p := remove1 a (cells (grid s) p))) q @ [a]),
                                agent_pos := (agent_pos (grid s))(a \<mapsto> q)\<rparr>,
                     agents := (agents s)(a \<mapsto> CleaningRobot c (m + 1))\<rparr>)"
        from rm eq have "s' =
              s\<lparr>random := (\<lambda>i. random s (Suc i)),
                     grid := (grid s)\<lparr>cells := ((cells (grid s))(p := remove1 a (cells (grid s) p)))
                                   (q := ((cells (grid s))(p := remove1 a (cells (grid s) p))) q @ [a]),
                                agent_pos := (agent_pos (grid s))(a \<mapsto> q)\<rparr>,
                     agents := (agents s)(a \<mapsto> CleaningRobot c (m + 1))\<rparr>"
          by simp
        with rob p oob nb show ?thesis by blast
      qed
    qed
  qed
qed

lemma filter_remove1_notP: "\<not> P a \<Longrightarrow> filter P (remove1 a xs) = filter P xs"
  by (induction xs) auto

lemma agent_step_frame:
  assumes "agent_step s a = Inr s'"
  shows "running s' = running s \<and> robotCount s' = robotCount s \<and> gridWidth s' = gridWidth s \<and>
     gridHeight s' = gridHeight s \<and> maxTime s' = maxTime s \<and> startTime s' = startTime s \<and>
     dirtPercentage s' = dirtPercentage s \<and> schedule s' = schedule s \<and>
     initialDirtyCells s' = initialDirtyCells s \<and> stepsExecuted s' = stepsExecuted s \<and>
     width (grid s') = width (grid s) \<and> height (grid s') = height (grid s) \<and>
     cleanCells s \<le> cleanCells s'"
  using agent_step_cases [OF assms] by auto

lemma agent_step_is_tile:
  assumes "agent_step s a = Inr s'"
  shows "is_tile s' b = is_tile s b"
  using agent_step_cases [OF assms]
proof (elim disjE exE conjE)
  assume "s' = s" then show ?thesis by simp
next
  fix c m p obj
  assume rob: "agents s a = Some (CleaningRobot c m)" and d: "is_dirty_tile s obj"
    and s': "s' = s\<lparr>agents := (agents s)(obj \<mapsto> GridTile 0, a \<mapsto> CleaningRobot (c + 1) m),
                        cleanCells := cleanCells s + 1\<rparr>"
  from d have "is_tile s obj" by (rule is_dirty_is_tile)
  moreover from rob have "\<not> is_tile s a" by (simp add: is_tile_def)
  ultimately show ?thesis using s' by (simp add: is_tile_def)
next
  fix c m p q
  assume rob: "agents s a = Some (CleaningRobot c m)"
    and s': "s' = s\<lparr>random := (\<lambda>i. random s (Suc i)),
                     grid := (grid s)\<lparr>cells := ((cells (grid s))(p := remove1 a (cells (grid s) p)))
                                   (q := ((cells (grid s))(p := remove1 a (cells (grid s) p))) q @ [a]),
                                agent_pos := (agent_pos (grid s))(a \<mapsto> q)\<rparr>,
                     agents := (agents s)(a \<mapsto> CleaningRobot c (m + 1))\<rparr>"
  from rob have "\<not> is_tile s a" by (simp add: is_tile_def)
  then show ?thesis using s' by (simp add: is_tile_def)
qed

lemma agent_step_tiles_at:
  assumes "agent_step s a = Inr s'"
  shows "tiles_at s' p = tiles_at s p"
proof -
  have t: "is_tile s' = is_tile s"
    using agent_step_is_tile [OF assms] by (simp add: fun_eq_iff)
  from agent_step_cases [OF assms] show ?thesis
  proof (elim disjE exE conjE)
    assume "s' = s" then show ?thesis by simp
  next
    fix c m p0 obj
    assume "s' = s\<lparr>agents := (agents s)(obj \<mapsto> GridTile 0, a \<mapsto> CleaningRobot (c + 1) m),
                        cleanCells := cleanCells s + 1\<rparr>"
    then have "grid s' = grid s" by simp
    with t show ?thesis by (simp add: tiles_at_def)
  next
    fix c m p0 q
    assume rob: "agents s a = Some (CleaningRobot c m)"
      and s': "s' = s\<lparr>random := (\<lambda>i. random s (Suc i)),
                     grid := (grid s)\<lparr>cells := ((cells (grid s))(p0 := remove1 a (cells (grid s) p0)))
                                   (q := ((cells (grid s))(p0 := remove1 a (cells (grid s) p0))) q @ [a]),
                                agent_pos := (agent_pos (grid s))(a \<mapsto> q)\<rparr>,
                     agents := (agents s)(a \<mapsto> CleaningRobot c (m + 1))\<rparr>"
    from rob have na: "\<not> is_tile s a" by (simp add: is_tile_def)
    from s' have "cells (grid s') p =
        (((cells (grid s))(p0 := remove1 a (cells (grid s) p0)))
           (q := ((cells (grid s))(p0 := remove1 a (cells (grid s) p0))) q @ [a])) p"
      by simp
    with na t show ?thesis
      by (simp add: tiles_at_def get_cell_list_contents_def filter_remove1_notP)
  qed
qed


lemma evolves_refl: "evolves s s"
  by (simp add: evolves_def)

lemma evolves_trans: "evolves s s1 \<Longrightarrow> evolves s1 s2 \<Longrightarrow> evolves s s2"
  by (auto simp: evolves_def)

lemma agent_step_evolves: "agent_step s a = Inr s' \<Longrightarrow> evolves s s'"
  using agent_step_frame [of s a s'] by (simp add: evolves_def)

lemma is_tile_updates:
  "is_tile (s\<lparr>random := g\<rparr>) = is_tile s"
  "is_tile (s\<lparr>running := b\<rparr>) = is_tile s"
  "is_tile (s\<lparr>stepsExecuted := n\<rparr>) = is_tile s"
  by (simp_all add: fun_eq_iff is_tile_def)

lemma is_dirty_tile_updates:
  "is_dirty_tile (s\<lparr>random := g\<rparr>) = is_dirty_tile s"
  "is_dirty_tile (s\<lparr>running := b\<rparr>) = is_dirty_tile s"
  "is_dirty_tile (s\<lparr>stepsExecuted := n\<rparr>) = is_dirty_tile s"
  by (simp_all add: fun_eq_iff is_dirty_tile_def)

lemma tiles_at_updates:
  "tiles_at (s\<lparr>random := g\<rparr>) = tiles_at s"
  "tiles_at (s\<lparr>running := b\<rparr>) = tiles_at s"
  "tiles_at (s\<lparr>stepsExecuted := n\<rparr>) = tiles_at s"
  by (simp_all add: fun_eq_iff tiles_at_def is_tile_updates)

lemma dirty_at_updates:
  "dirty_at (s\<lparr>random := g\<rparr>) = dirty_at s"
  "dirty_at (s\<lparr>running := b\<rparr>) = dirty_at s"
  "dirty_at (s\<lparr>stepsExecuted := n\<rparr>) = dirty_at s"
  by (simp_all add: fun_eq_iff dirty_at_def is_dirty_tile_updates)

lemma dirtyTiles_updates:
  "dirtyTiles (s\<lparr>random := g\<rparr>) = dirtyTiles s"
  "dirtyTiles (s\<lparr>running := b\<rparr>) = dirtyTiles s"
  "dirtyTiles (s\<lparr>stepsExecuted := n\<rparr>) = dirtyTiles s"
  by (simp_all add: dirtyTiles_def dirty_at_updates)

lemma sim_inv_updates:
  "sim_inv (s\<lparr>random := g\<rparr>) = sim_inv s"
  "sim_inv (s\<lparr>running := b\<rparr>) = sim_inv s"
  "sim_inv (s\<lparr>stepsExecuted := n\<rparr>) = sim_inv s"
  by (simp_all add: sim_inv_def tiles_in_place_def tiles_at_updates dirtyTiles_updates)

lemma agent_step_inv:
  assumes inv: "sim_inv s" and st: "agent_step s a = Inr s'"
  shows "sim_inv s'"
proof -
  let ?cs = "all_coords (gridWidth s) (gridHeight s)"
  from agent_step_frame [OF st] have
    wh: "gridWidth s' = gridWidth s" "gridHeight s' = gridHeight s"
    and idc: "initialDirtyCells s' = initialDirtyCells s"
    by simp_all
  from inv have tip: "tiles_in_place s"
    and cnt: "cleanCells s + int (length (dirtyTiles s)) = initialDirtyCells s"
    by (simp_all add: sim_inv_def)
  from tip have tip': "tiles_in_place s'"
    by (simp add: tiles_in_place_def agent_step_tiles_at [OF st] wh)
  have dt: "dirtyTiles s = map tile_of (filter (\<lambda>p. is_dirty_tile s (tile_of p)) ?cs)"
    by (rule dirtyTiles_in_place [OF tip])
  have dt': "dirtyTiles s' = map tile_of (filter (\<lambda>p. is_dirty_tile s' (tile_of p)) ?cs)"
    using dirtyTiles_in_place [OF tip'] by (simp add: wh)
  have "cleanCells s' + int (length (dirtyTiles s')) = cleanCells s + int (length (dirtyTiles s))"
    using agent_step_cases [OF st]
  proof (elim disjE exE conjE)
    assume "s' = s" then show ?thesis by simp
  next
    fix c m p obj
    assume rob: "agents s a = Some (CleaningRobot c m)"
      and mem: "obj \<in> set (cells (grid s) p)" and d: "is_dirty_tile s obj"
      and s': "s' = s\<lparr>agents := (agents s)(obj \<mapsto> GridTile 0, a \<mapsto> CleaningRobot (c + 1) m),
                        cleanCells := cleanCells s + 1\<rparr>"
    from mem d have "obj \<in> set (tiles_at s p)"
      by (simp add: tiles_at_def get_cell_list_contents_def is_dirty_is_tile)
    moreover from tip have "tiles_at s p = (if p \<in> set ?cs then [tile_of p] else [])"
      by (rule tiles_in_placeD)
    ultimately have p: "p \<in> set ?cs" and obj: "obj = tile_of p"
      by (auto split: if_splits)
    from rob have nd: "\<not> is_dirty_tile s a" by (simp add: is_dirty_tile_def)
    have "is_dirty_tile s' b = (is_dirty_tile s b \<and> b \<noteq> obj)" for b
      using s' nd by (auto simp: is_dirty_tile_def)
    then have "(\<lambda>q. is_dirty_tile s' (tile_of q)) = (\<lambda>q. is_dirty_tile s (tile_of q) \<and> q \<noteq> p)"
      by (simp add: obj inj_tile_of)
    moreover have "length (filter (\<lambda>q. is_dirty_tile s (tile_of q) \<and> q \<noteq> p) ?cs) + 1 =
                   length (filter (\<lambda>q. is_dirty_tile s (tile_of q)) ?cs)"
      using distinct_all_coords p d [unfolded obj] by (rule length_filter_remove)
    ultimately have "length (dirtyTiles s') + 1 = length (dirtyTiles s)"
      by (simp add: dt dt')
    moreover from s' have "cleanCells s' = cleanCells s + 1" by simp
    ultimately show ?thesis by linarith
  next
    fix c m p q
    assume rob: "agents s a = Some (CleaningRobot c m)"
      and s': "s' = s\<lparr>random := (\<lambda>i. random s (Suc i)),
                     grid := (grid s)\<lparr>cells := ((cells (grid s))(p := remove1 a (cells (grid s) p)))
                                   (q := ((cells (grid s))(p := remove1 a (cells (grid s) p))) q @ [a]),
                                agent_pos := (agent_pos (grid s))(a \<mapsto> q)\<rparr>,
                     agents := (agents s)(a \<mapsto> CleaningRobot c (m + 1))\<rparr>"
    from rob have nd: "\<not> is_dirty_tile s a" by (simp add: is_dirty_tile_def)
    have "is_dirty_tile s' b = is_dirty_tile s b" for b
      using s' nd by (auto simp: is_dirty_tile_def)
    then have "dirtyTiles s' = dirtyTiles s" by (simp add: dt dt')
    moreover from s' have "cleanCells s' = cleanCells s" by simp
    ultimately show ?thesis by simp
  qed
  with cnt idc tip' show ?thesis by (simp add: sim_inv_def)
qed

lemma activate_inv: "sim_inv s \<Longrightarrow> sim_inv (fst (activate s as))"
  by (induction as arbitrary: s) (auto split: sum.splits intro: agent_step_inv)

lemma activate_evolves: "evolves s (fst (activate s as))"
proof (induction as arbitrary: s)
  case Nil
  show ?case by (simp add: evolves_refl)
next
  case (Cons a as)
  show ?case
  proof (cases "agent_step s a")
    case (Inl e)
    then show ?thesis by (simp add: evolves_refl)
  next
    case (Inr s1)
    from agent_step_evolves [OF Inr] Cons.IH [of s1] have "evolves s (fst (activate s1 as))"
      by (rule evolves_trans)
    with Inr show ?thesis by simp
  qed
qed

lemma schedule_step_inv: "sim_inv s \<Longrightarrow> sim_inv (fst (schedule_step s))"
  by (simp add: schedule_step_def case_prod_beta activate_inv sim_inv_updates)

lemma schedule_step_evolves: "evolves s (fst (schedule_step s))"
proof -
  have "evolves (s\<lparr>random := snd (random_shuffle (random s) (schedule s))\<rparr>) (fst (schedule_step s))"
    using activate_evolves by (simp add: schedule_step_def case_prod_beta)
  then show ?thesis by (simp add: evolves_def)
qed

lemma step_inv: "sim_inv s \<Longrightarrow> sim_inv (fst (step s now))"
  using schedule_step_inv [of s]
  by (auto simp: step_def Let_def sim_inv_updates split: sum.splits prod.splits option.splits)

lemma step_evolves: "evolves s (fst (step s now))"
  using schedule_step_evolves [of s]
  by (auto simp: step_def Let_def evolves_def split: sum.splits prod.splits option.splits)

lemma run_inv: "sim_inv s \<Longrightarrow> sim_inv (run s ts)"
  by (induction ts arbitrary: s) (simp_all add: step_inv)

lemma run_evolves: "evolves s (run s ts)"
proof (induction ts arbitrary: s)
  case Nil
  show ?case by (simp add: evolves_refl)
next
  case (Cons t ts)
  from step_evolves Cons.IH have "evolves s (run (fst (step s t)) ts)"
    by (rule evolves_trans)
  then show ?case by simp
qed


lemma init_result_aux:
  assumes "CleaningSimulation_init w h rc dp mt now own glob = Inr (s, g)"
      and kk: "int_of_product (w * h) dp = Inr k"
  shows "running s" and "robotCount s = rc" and "gridWidth s = w" and "gridHeight s = h"
    and "maxTime s = mt" and "startTime s = now" and "dirtPercentage s = dp"
    and "cleanCells s = 0" and "initialDirtyCells s = k"
    and "stepsExecuted s = 0" and "random s = own"
    and "schedule s = map robot_id (py_range rc)"
    and "width (grid s) = w" and "height (grid s) = h"
    and "0 \<le> k"
    and "k \<le> int (nat w * nat h)"
    and "g = snd (sample_loop glob (all_coords w h) (nat (k)))"
    and "\<And>a. agents s a =
           (case a of
              tile_id x y \<Rightarrow>
                if (x, y) \<in> set (all_coords w h)
                then Some (GridTile
                  (if (x, y) \<in> set (fst (sample_loop glob (all_coords w h)
                                             (nat (k))))
                   then 1 else 0))
                else None
            | robot_id i \<Rightarrow> if i \<in> set (py_range rc) then Some (CleaningRobot 0 0) else None)"
    and "\<And>p. cells (grid s) p =
           (if p \<in> set (all_coords w h) then [tile_of p] else [])
           @ (if p = (1, 1) then map robot_id (py_range rc) else [])"
    and "\<And>a. agent_pos (grid s) a =
           (case a of
              tile_id x y \<Rightarrow> if (x, y) \<in> set (all_coords w h) then Some (x, y) else None
            | robot_id i \<Rightarrow> if i \<in> set (py_range rc) then Some (1, 1) else None)"
proof -
  let ?k = "k"
  let ?d = "fst (sample_loop glob (all_coords w h) (nat ?k))"
  let ?s0 = "\<lparr>running = True, robotCount = rc, gridWidth = w, gridHeight = h, maxTime = mt,
                  startTime = now, dirtPercentage = dp, grid = MultiGrid w h, schedule = [],
                  cleanCells = 0, initialDirtyCells = ?k,
                  stepsExecuted = 0, agents = (\<lambda>a. None), random = own\<rparr>"
  have "0 \<le> ?k \<and> ?k \<le> int (nat w * nat h)"
  proof (rule ccontr)
    assume "\<not> (0 \<le> ?k \<and> ?k \<le> int (nat w * nat h))"
    then have "?k < 0 \<or> int (nat w * nat h) < ?k" by linarith
    from init_ValueError [OF this kk, of rc mt now own glob] assms(1) show False by simp
  qed
  then have k: "0 \<le> ?k" "?k \<le> int (nat w * nat h)" by blast+
  from init_tiles [OF k] obtain s1 where s1: "createTiles ?d (all_coords w h) ?s0 = Inr s1"
    by blast
  from assms(1) init_unfold [OF k s1 kk] have
    s: "placeRobots (py_range rc) s1 = Inr s" and g: "g = snd (sample_loop glob (all_coords w h) (nat ?k))"
    by (auto split: sum.splits)
  note f1 = createTiles_fields [OF s1] and f2 = placeRobots_fields [OF s]
  from f1 f2 show "running s" "robotCount s = rc" "gridWidth s = w" "gridHeight s = h"
    "maxTime s = mt" "startTime s = now" "dirtPercentage s = dp"
    "cleanCells s = 0" "initialDirtyCells s = ?k"
    "stepsExecuted s = 0" "random s = own"
    "schedule s = map robot_id (py_range rc)"
    "width (grid s) = w" "height (grid s) = h"
    by (simp_all add: MultiGrid_def)
  from k show "0 \<le> ?k" "?k \<le> int (nat w * nat h)" by simp_all
  from g show "g = snd (sample_loop glob (all_coords w h) (nat ?k))" .
  show "agents s a =
           (case a of
              tile_id x y \<Rightarrow>
                if (x, y) \<in> set (all_coords w h)
                then Some (GridTile (if (x, y) \<in> set ?d then 1 else 0))
                else None
            | robot_id i \<Rightarrow> if i \<in> set (py_range rc) then Some (CleaningRobot 0 0) else None)" for a
    by (simp add: placeRobots_agents [OF s] createTiles_agents [OF s1] split: agent_id.splits)
  show "cells (grid s) p =
           (if p \<in> set (all_coords w h) then [tile_of p] else [])
           @ (if p = (1, 1) then map robot_id (py_range rc) else [])" for p
    by (simp add: placeRobots_cells [OF s] createTiles_cells [OF distinct_all_coords s1] MultiGrid_def)
  show "agent_pos (grid s) a =
           (case a of
              tile_id x y \<Rightarrow> if (x, y) \<in> set (all_coords w h) then Some (x, y) else None
            | robot_id i \<Rightarrow> if i \<in> set (py_range rc) then Some (1, 1) else None)" for a
    by (simp add: placeRobots_agent_pos [OF s] createTiles_agent_pos [OF s1] MultiGrid_def
          split: agent_id.splits)
qed

lemma init_result:
  assumes "CleaningSimulation_init w h rc dp mt now own glob = Inr (s, g)"
  shows "running s" and "robotCount s = rc" and "gridWidth s = w" and "gridHeight s = h"
    and "maxTime s = mt" and "startTime s = now" and "dirtPercentage s = dp"
    and "cleanCells s = 0" and "int_of_product (w * h) dp = Inr (initialDirtyCells s)"
    and "stepsExecuted s = 0" and "random s = own"
    and "schedule s = map robot_id (py_range rc)"
    and "width (grid s) = w" and "height (grid s) = h"
    and "0 \<le> initialDirtyCells s"
    and "initialDirtyCells s \<le> int (nat w * nat h)"
    and "g = snd (sample_loop glob (all_coords w h) (nat (initialDirtyCells s)))"
    and "\<And>a. agents s a =
           (case a of
              tile_id x y \<Rightarrow>
                if (x, y) \<in> set (all_coords w h)
                then Some (GridTile
                  (if (x, y) \<in> set (fst (sample_loop glob (all_coords w h)
                                             (nat (initialDirtyCells s))))
                   then 1 else 0))
                else None
            | robot_id i \<Rightarrow> if i \<in> set (py_range rc) then Some (CleaningRobot 0 0) else None)"
    and "\<And>p. cells (grid s) p =
           (if p \<in> set (all_coords w h) then [tile_of p] else [])
           @ (if p = (1, 1) then map robot_id (py_range rc) else [])"
    and "\<And>a. agent_pos (grid s) a =
           (case a of
              tile_id x y \<Rightarrow> if (x, y) \<in> set (all_coords w h) then Some (x, y) else None
            | robot_id i \<Rightarrow> if i \<in> set (py_range rc) then Some (1, 1) else None)"
proof -
  from assms obtain k where kk: "int_of_product (w * h) dp = Inr k"
    by (rule init_count)
  note r = init_result_aux [OF assms kk]
  from r(9) have k: "k = initialDirtyCells s" by simp
  from r(1-8) show "running s" "robotCount s = rc" "gridWidth s = w" "gridHeight s = h"
    "maxTime s = mt" "startTime s = now" "dirtPercentage s = dp" "cleanCells s = 0"
    by blast+
  from kk k show "int_of_product (w * h) dp = Inr (initialDirtyCells s)" by simp
  from r(10-14) show "stepsExecuted s = 0" "random s = own"
    "schedule s = map robot_id (py_range rc)" "width (grid s) = w" "height (grid s) = h"
    by blast+
  from r(15-17) k show "0 \<le> initialDirtyCells s" "initialDirtyCells s \<le> int (nat w * nat h)"
    "g = snd (sample_loop glob (all_coords w h) (nat (initialDirtyCells s)))"
    by blast+
  from r(18) k show "agents s a =
           (case a of
              tile_id x y \<Rightarrow>
                if (x, y) \<in> set (all_coords w h)
                then Some (GridTile
                  (if (x, y) \<in> set (fst (sample_loop glob (all_coords w h)
                                             (nat (initialDirtyCells s))))
                   then 1 else 0))
                else None
            | robot_id i \<Rightarrow> if i \<in> set (py_range rc) then Some (CleaningRobot 0 0) else None)" for a
    by blast
  from r(19) show "cells (grid s) p =
           (if p \<in> set (all_coords w h) then [tile_of p] else [])
           @ (if p = (1, 1) then map robot_id (py_range rc) else [])" for p
    by blast
  from r(20) show "agent_pos (grid s) a =
           (case a of
              tile_id x y \<Rightarrow> if (x, y) \<in> set (all_coords w h) then Some (x, y) else None
            | robot_id i \<Rightarrow> if i \<in> set (py_range rc) then Some (1, 1) else None)" for a
    by blast
qed

lemma length_filter_member:
  assumes "distinct cs" and "distinct d" and "set d \<subseteq> set cs"
  shows "length (filter (\<lambda>p. p \<in> set d) cs) = length d"
proof -
  have "length (filter (\<lambda>p. p \<in> set d) cs) = card ({p. p \<in> set d} \<inter> set cs)"
    using assms(1) by (rule distinct_length_filter)
  also have "{p. p \<in> set d} \<inter> set cs = set d" using assms(3) by auto
  also have "card (set d) = length d" using assms(2) by (rule distinct_card)
  finally show ?thesis .
qed

lemma init_tiles_in_place:
  assumes "CleaningSimulation_init w h rc dp mt now own glob = Inr (s, g)"
  shows "tiles_in_place s"
proof -
  note r = init_result [OF assms]
  have "tiles_at s p = (if p \<in> set (all_coords w h) then [tile_of p] else [])" for p
    by (simp add: tiles_at_def get_cell_list_contents_def r(19) is_tile_def r(18) tile_of_def)
  then show ?thesis by (simp add: tiles_in_place_def r(3,4))
qed

lemma init_dirtyTiles:
  assumes "CleaningSimulation_init w h rc dp mt now own glob = Inr (s, g)"
  shows "dirtyTiles s =
           map tile_of (filter (\<lambda>p. p \<in> set (fst (sample_loop glob (all_coords w h)
                                                  (nat (initialDirtyCells s)))))
                          (all_coords w h))"
proof -
  note r = init_result [OF assms]
  have "filter (\<lambda>p. is_dirty_tile s (tile_of p)) (all_coords w h) =
        filter (\<lambda>p. p \<in> set (fst (sample_loop glob (all_coords w h)
                                     (nat (initialDirtyCells s))))) (all_coords w h)"
    by (rule filter_cong) (auto simp: is_dirty_tile_def r(18) tile_of_def)
  with dirtyTiles_in_place [OF init_tiles_in_place [OF assms]] show ?thesis
    by (simp add: r(3,4))
qed

lemma init_length_dirtyTiles:
  assumes "CleaningSimulation_init w h rc dp mt now own glob = Inr (s, g)"
  shows "int (length (dirtyTiles s)) = initialDirtyCells s"
proof -
  note r = init_result [OF assms]
  let ?k = "nat (initialDirtyCells s)"
  from r(15,16) have k: "?k \<le> length (all_coords w h)"
    by (simp add: length_all_coords nat_le_iff)
  have "length (filter (\<lambda>p. p \<in> set (fst (sample_loop glob (all_coords w h) ?k))) (all_coords w h))
        = length (fst (sample_loop glob (all_coords w h) ?k))"
    using distinct_all_coords distinct_sample_loop [OF k distinct_all_coords] set_sample_loop [OF k]
    by (rule length_filter_member)
  then show ?thesis using r(15)
    by (simp add: init_dirtyTiles [OF assms] length_sample_loop)
qed

lemma init_inv:
  assumes "CleaningSimulation_init w h rc dp mt now own glob = Inr (s, g)"
  shows "sim_inv s"
  using init_tiles_in_place [OF assms] init_length_dirtyTiles [OF assms] init_result(8) [OF assms]
  by (simp add: sim_inv_def)

section \<open>Construction: the claims\<close>

lemma init_accepts_iff:
  "(\<exists>s g. CleaningSimulation_init w h rc dp mt now own glob = Inr (s, g)) \<longleftrightarrow>
     (\<exists>k. int_of_product (w * h) dp = Inr k \<and> 0 \<le> k \<and> k \<le> int (nat w * nat h)
          \<and> (rc \<le> 0 \<or> (2 \<le> w \<and> 2 \<le> h)))"
proof (cases "int_of_product (w * h) dp")
  case (Inl e)
  then show ?thesis by (simp add: init_raises)
next
  case (Inr k)
  show ?thesis
  proof (cases "k < 0 \<or> int (nat w * nat h) < k")
    case True
    from init_ValueError [OF this Inr] True Inr show ?thesis by auto
  next
    case ok: False
    show ?thesis
    proof (cases "rc \<le> 0 \<or> (2 \<le> w \<and> 2 \<le> h)")
      case True
      with ok Inr init_succeeds [where w = w and h = h and dp = dp and k = k and rc = rc]
      show ?thesis by auto
    next
      case False
      with ok Inr init_IndexError [where w = w and h = h and dp = dp and k = k and rc = rc]
      show ?thesis by auto
    qed
  qed
qed

lemma cr_init_accepts_iff:
  "(\<exists>s g. cr_init rc w h n dp own glob = Inr (s, g)) \<longleftrightarrow>
     (\<exists>k. int_of_product (w * h) dp = Inr k \<and> 0 \<le> k \<and> k \<le> int (nat w * nat h)
          \<and> (rc \<le> 0 \<or> (2 \<le> w \<and> 2 \<le> h)))"
proof (cases "int_of_product (w * h) dp")
  case (Inl e)
  then show ?thesis by (simp add: cr_init_raises)
next
  case (Inr k)
  show ?thesis
  proof (cases "k < 0 \<or> int (nat w * nat h) < k")
    case True
    from cr_init_ValueError [OF this Inr] True Inr show ?thesis by auto
  next
    case ok: False
    show ?thesis
    proof (cases "rc \<le> 0 \<or> (2 \<le> w \<and> 2 \<le> h)")
      case True
      with ok Inr cr_init_succeeds [where w = w and h = h and dp = dp and k = k and rc = rc]
      show ?thesis by auto
    next
      case False
      with ok Inr cr_init_IndexError [where w = w and h = h and dp = dp and k = k and rc = rc]
      show ?thesis by auto
    qed
  qed
qed

text \<open>
  Claim C2. The specification asks the constructor to validate its parameters
  (\<open>width, height > 0\<close>, \<open>0 \<le> dirtPercentage \<le> 1\<close>, \<open>robotCount \<ge> 1\<close>) and to reject
  \<open>robotCount = 0\<close> as a configuration error. Neither constructor has such a check. A
  5 by 5 grid with \<open>robotCount = 0\<close> is constructed: the result is a running simulation
  whose scheduler is empty.
\<close>

theorem robotCount_zero_is_accepted:
  "(case CleaningSimulation_init 5 5 0 (3602879701896397 / 18014398509481984) 60 0 (\<lambda>i. 0) (\<lambda>i. 0) of
      Inl e \<Rightarrow> False
    | Inr (s, g) \<Rightarrow> running s \<and> robotCount s = 0 \<and> schedule s = [] \<and> initialDirtyCells s = 5)"
  by code_simp

text \<open>
  Claim C2, as the code has it. Construction is accepted exactly when the number of dirty
  cells \<open>int(width * height * dirtPercentage)\<close> has a value (the float product does not
  overflow) that can be sampled from the cells of the grid (it is neither negative nor
  larger than their number) and the robots, if there are any, can be placed at
  \<open>(1, 1)\<close>. That holds for both modules, for every clock reading
  and every state of the generators. In all other cases an exception leaves the
  constructor and there is no object.
\<close>

theorem construction_accepted_iff:
  "((\<exists>s g. CleaningSimulation_init w h rc dp mt now own glob = Inr (s, g)) \<longleftrightarrow>
      (\<exists>k. int_of_product (w * h) dp = Inr k
           \<and> 0 \<le> k
           \<and> k \<le> int (nat w * nat h)
           \<and> (rc \<le> 0 \<or> (2 \<le> w \<and> 2 \<le> h))))
   \<and> ((\<exists>s g. cr_init rc w h n dp own glob = Inr (s, g)) \<longleftrightarrow>
      (\<exists>k. int_of_product (w * h) dp = Inr k
           \<and> 0 \<le> k
           \<and> k \<le> int (nat w * nat h)
           \<and> (rc \<le> 0 \<or> (2 \<le> w \<and> 2 \<le> h))))"
  using init_accepts_iff [of w h rc dp mt now own glob] cr_init_accepts_iff [of rc w h n dp own glob]
  by blast

text \<open>
  Claim C9. With at least one robot and a grid narrower or lower than 2 the claim expects
  the out-of-bounds error of the first placement at \<open>(1, 1)\<close> for every configuration.
  The dirty positions are sampled before any robot is placed: on a 1 by 1 grid with
  \<open>dirtPercentage = 2\<close> the sample of 2 cells out of 1 raises \<open>ValueError\<close>, and no
  placement is reached.
\<close>

theorem small_grid_sample_error:
  "CleaningSimulation_init 1 1 1 2 60 0 (\<lambda>i. 0) (\<lambda>i. 0) = Inl ValueError"
proof -
  have "int_of_product (1 * 1) 2 = Inr 2" by code_simp
  with init_ValueError [where w = 1 and h = 1 and dp = 2 and k = 2] show ?thesis by simp
qed

text \<open>
  Claim C9, as the code has it. With \<open>robotCount \<ge> 1\<close> and \<open>width < 2\<close> or
  \<open>height < 2\<close> construction always fails, in both modules: with the \<open>ValueError\<close> of the
  sampling when the number of dirty cells is negative or exceeds the number of cells
  (with the \<open>OverflowError\<close> of \<open>int(width * height * dirtPercentage)\<close> when that
  product overflows), and otherwise with the out-of-bounds error of placing the first
  robot at \<open>(1, 1)\<close>. A 1 by 1 grid with a robot is never constructed.
\<close>

theorem small_grid_construction_fails:
  assumes "1 \<le> rc" and "w < 2 \<or> h < 2"
  shows "CleaningSimulation_init w h rc dp mt now own glob =
           (case int_of_product (w * h) dp of
              Inl e \<Rightarrow> Inl e
            | Inr k \<Rightarrow>
                if k < 0 \<or> int (nat w * nat h) < k then Inl ValueError else Inl IndexError)
         \<and> cr_init rc w h n dp own glob =
           (case int_of_product (w * h) dp of
              Inl e \<Rightarrow> Inl e
            | Inr k \<Rightarrow>
                if k < 0 \<or> int (nat w * nat h) < k then Inl ValueError else Inl IndexError)"
proof (cases "int_of_product (w * h) dp")
  case (Inl e)
  then show ?thesis by (simp add: init_raises cr_init_raises)
next
  case (Inr k)
  show ?thesis
  proof (cases "k < 0 \<or> int (nat w * nat h) < k")
    case True
    with Inr show ?thesis
      by (simp add: init_ValueError [OF True Inr] cr_init_ValueError [OF True Inr])
  next
    case False
    then have k: "0 \<le> k" "k \<le> int (nat w * nat h)"
      by auto
    from False Inr show ?thesis
      by (simp add: init_IndexError [OF k assms Inr] cr_init_IndexError [OF k assms Inr])
  qed
qed

theorem small_grid_construction_fails_witness:
  "(1::int) \<le> 1 \<and> ((1::int) < 2 \<or> (1::int) < 2)
   \<and> CleaningSimulation_init 1 1 1 (1 / 2) 60 0 (\<lambda>i. 0) (\<lambda>i. 0) = Inl IndexError
   \<and> cr_init 1 1 1 100 (1 / 2) (\<lambda>i. 0) (\<lambda>i. 0) = Inl IndexError"
proof -
  have "int_of_product (1 * 1) (1 / 2) = Inr 0" by code_simp
  with small_grid_construction_fails [of 1 1 1 "1 / 2" 60 0 "\<lambda>i. 0" "\<lambda>i. 0" 100]
  show ?thesis by simp
qed

section \<open>Statistics\<close>

lemma getStatistics_percentage:
  "initialDirtyCells s \<noteq> 0 \<Longrightarrow>
     \<exists>st. getStatistics s now = Inr st
       \<and> PorcentajeCompletado st = 100 * of_int (cleanCells s) / of_int (initialDirtyCells s)
       \<and> TiempoTranscurrido st = now - startTime s"
  by (simp add: getStatistics_def)

lemma getStatistics_raises_iff:
  "getStatistics s now = Inl ZeroDivisionError \<longleftrightarrow> initialDirtyCells s = 0"
  by (simp add: getStatistics_def)

text \<open>
  Claim C1. With a non-zero initial count \<open>getStatistics\<close> reports
  \<open>cleanCells / initialDirtyCells * 100\<close>. For an initial count of 0 the claim asks for
  the percentage 0 and no division error; the method has no such case. On a 5 by 5 grid
  with one robot and \<open>dirtPercentage = 0\<close> the initial count is 0, \<open>getStatistics\<close> raises
  \<open>ZeroDivisionError\<close>, and so does the first \<open>step()\<close>, after it has cleared the flag
  \<open>running\<close>.
\<close>

theorem getStatistics_zero_dirty_raises:
  "(case CleaningSimulation_init 5 5 1 0 60 0 (\<lambda>i. 0) (\<lambda>i. 0) of
      Inl e \<Rightarrow> False
    | Inr (s, g) \<Rightarrow>
        initialDirtyCells s = 0
        \<and> getStatistics s 1 = Inl ZeroDivisionError
        \<and> snd (step s 1) = Some ZeroDivisionError
        \<and> \<not> running (fst (step s 1)))"
  by code_simp

section \<open>Counters and termination\<close>

lemma run_snoc: "run s (ts @ [t]) = fst (step (run s ts) t)"
  by (induction ts arbitrary: s) simp_all

lemma reachable_inv:
  assumes "CleaningSimulation_init w h rc dp mt now own glob = Inr (s0, g)"
  shows "sim_inv (run s0 ts)" and "evolves s0 (run s0 ts)"
  using init_inv [OF assms] by (simp_all add: run_inv run_evolves)

lemma step_terminated:
  assumes "maxTime s \<le> t - startTime s \<or> initialDirtyCells s \<le> cleanCells s"
  shows "fst (step s t) = s\<lparr>running := False\<rparr>"
  using assms by (auto simp: step_def Let_def split: sum.splits)

lemma agent_step_never_dirties:
  assumes "agent_step s a = Inr s'" and "is_dirty_tile s' b"
  shows "is_dirty_tile s b"
  using agent_step_cases [OF assms(1)]
proof (elim disjE exE conjE)
  assume "s' = s" with assms(2) show ?thesis by simp
next
  fix c m p obj
  assume rob: "agents s a = Some (CleaningRobot c m)"
    and s': "s' = s\<lparr>agents := (agents s)(obj \<mapsto> GridTile 0, a \<mapsto> CleaningRobot (c + 1) m),
                        cleanCells := cleanCells s + 1\<rparr>"
  with assms(2) show ?thesis by (auto simp: is_dirty_tile_def split: if_splits)
next
  fix c m p q
  assume rob: "agents s a = Some (CleaningRobot c m)"
    and s': "s' = s\<lparr>random := (\<lambda>i. random s (Suc i)),
                     grid := (grid s)\<lparr>cells := ((cells (grid s))(p := remove1 a (cells (grid s) p)))
                                   (q := ((cells (grid s))(p := remove1 a (cells (grid s) p))) q @ [a]),
                                agent_pos := (agent_pos (grid s))(a \<mapsto> q)\<rparr>,
                     agents := (agents s)(a \<mapsto> CleaningRobot c (m + 1))\<rparr>"
  with assms(2) show ?thesis by (auto simp: is_dirty_tile_def split: if_splits)
qed

lemma activate_never_dirties:
  "is_dirty_tile (fst (activate s as)) b \<Longrightarrow> is_dirty_tile s b"
proof (induction as arbitrary: s)
  case Nil
  then show ?case by simp
next
  case (Cons a as)
  show ?case
  proof (cases "agent_step s a")
    case (Inl e)
    with Cons.prems show ?thesis by simp
  next
    case (Inr s1)
    with Cons.prems have "is_dirty_tile (fst (activate s1 as)) b" by simp
    from agent_step_never_dirties [OF Inr Cons.IH [OF this]] show ?thesis .
  qed
qed

lemma schedule_step_never_dirties:
  "is_dirty_tile (fst (schedule_step s)) b \<Longrightarrow> is_dirty_tile s b"
  using activate_never_dirties [of "s\<lparr>random := snd (random_shuffle (random s) (schedule s))\<rparr>"
      "fst (random_shuffle (random s) (schedule s))" b]
  by (simp add: schedule_step_def case_prod_beta is_dirty_tile_updates)

lemma step_never_dirties:
  "is_dirty_tile (fst (step s t)) b \<Longrightarrow> is_dirty_tile s b"
proof (cases "maxTime s \<le> t - startTime s \<or> initialDirtyCells s \<le> cleanCells s")
  case True
  assume "is_dirty_tile (fst (step s t)) b"
  with step_terminated [OF True] show ?thesis by (simp add: is_dirty_tile_updates)
next
  case False
  assume d: "is_dirty_tile (fst (step s t)) b"
  from False have "is_dirty_tile (fst (step s t)) = is_dirty_tile (fst (schedule_step s))"
    by (auto simp: step_def Let_def is_dirty_tile_updates split: prod.splits option.splits)
  with d show ?thesis by (simp add: schedule_step_never_dirties)
qed

lemma run_never_dirties:
  "is_dirty_tile (run s ts) b \<Longrightarrow> is_dirty_tile s b"
  by (induction ts arbitrary: s) (auto dest: step_never_dirties)

lemma in_dirtyTiles_iff:
  assumes "tiles_in_place s"
  shows "a \<in> set (dirtyTiles s) \<longleftrightarrow>
           (\<exists>p. p \<in> set (all_coords (gridWidth s) (gridHeight s)) \<and> a = tile_of p \<and> is_dirty_tile s a)"
  unfolding dirtyTiles_in_place [OF assms] by auto

lemma all_clean_iff:
  assumes "CleaningSimulation_init w h rc dp mt now own glob = Inr (s0, g)"
  shows "dirtyTiles (run s0 ts) = [] \<longleftrightarrow>
           (\<forall>a \<in> set (dirtyTiles s0). \<not> is_dirty_tile (run s0 ts) a)"
proof -
  let ?s = "run s0 ts"
  from reachable_inv [OF assms, of ts] have tip: "tiles_in_place ?s" and ev: "evolves s0 ?s"
    by (simp_all add: sim_inv_def)
  from ev have wh: "gridWidth ?s = gridWidth s0" "gridHeight ?s = gridHeight s0"
    by (simp_all add: evolves_def)
  note d0 = in_dirtyTiles_iff [OF init_tiles_in_place [OF assms]]
  note d = in_dirtyTiles_iff [OF tip, unfolded wh]
  show ?thesis
  proof
    assume e: "dirtyTiles ?s = []"
    show "\<forall>a \<in> set (dirtyTiles s0). \<not> is_dirty_tile ?s a"
    proof (intro ballI notI)
      fix a
      assume "a \<in> set (dirtyTiles s0)" and "is_dirty_tile ?s a"
      with d0 [of a] d [of a] have "a \<in> set (dirtyTiles ?s)" by blast
      with e show False by simp
    qed
  next
    assume a: "\<forall>a \<in> set (dirtyTiles s0). \<not> is_dirty_tile ?s a"
    show "dirtyTiles ?s = []"
    proof (rule ccontr)
      assume "dirtyTiles ?s \<noteq> []"
      then obtain b where b: "b \<in> set (dirtyTiles ?s)" by (cases "dirtyTiles ?s") auto
      with d [of b] have db: "is_dirty_tile ?s b" by blast
      from run_never_dirties [OF db] b d [of b] d0 [of b] have "b \<in> set (dirtyTiles s0)"
        by blast
      with a db show False by blast
    qed
  qed
qed

text \<open>
  Claim C10. In every state reached from a constructed simulation by any number of
  \<open>step()\<close> calls, at any clock readings: a further step never decreases \<open>cleanCells\<close>;
  the counter lies between 0 and \<open>initialDirtyCells\<close>, which never changes; the counter
  and the dirty tiles still on the grid add up to the initial count, and a step never
  makes a tile dirty (every increment turns one dirty tile clean); and whenever
  \<open>getStatistics\<close> reports a percentage, it is at most 100 (it raises only when the
  initial count is 0).
\<close>

theorem cleanCells_monotone_bounded:
  assumes "CleaningSimulation_init w h rc dp mt now own glob = Inr (s0, g)"
  shows "cleanCells (run s0 ts) \<le> cleanCells (fst (step (run s0 ts) t))
       \<and> 0 \<le> cleanCells (run s0 ts)
       \<and> cleanCells (run s0 ts) \<le> initialDirtyCells (run s0 ts)
       \<and> initialDirtyCells (run s0 ts) = initialDirtyCells s0
       \<and> cleanCells (run s0 ts) + int (length (dirtyTiles (run s0 ts))) = initialDirtyCells s0
       \<and> (\<forall>a. is_dirty_tile (fst (step (run s0 ts) t)) a \<longrightarrow> is_dirty_tile (run s0 ts) a)
       \<and> (case getStatistics (run s0 ts) t of
             Inl e \<Rightarrow> initialDirtyCells s0 = 0
           | Inr st \<Rightarrow> PorcentajeCompletado st \<le> 100)"
proof -
  let ?s = "run s0 ts"
  note r = init_result [OF assms]
  have nd: "\<forall>a. is_dirty_tile (fst (step ?s t)) a \<longrightarrow> is_dirty_tile ?s a"
    using step_never_dirties by blast
  from reachable_inv [OF assms, of ts] have
    cnt: "cleanCells ?s + int (length (dirtyTiles ?s)) = initialDirtyCells ?s"
    and ev: "evolves s0 ?s"
    by (simp_all add: sim_inv_def)
  from ev have idc: "initialDirtyCells ?s = initialDirtyCells s0"
    and c0: "cleanCells s0 \<le> cleanCells ?s"
    by (simp_all add: evolves_def)
  from step_evolves [of ?s t] have mono: "cleanCells ?s \<le> cleanCells (fst (step ?s t))"
    by (simp add: evolves_def)
  from cnt have le: "cleanCells ?s \<le> initialDirtyCells ?s" by linarith
  have pct: "(case getStatistics ?s t of
             Inl e \<Rightarrow> initialDirtyCells s0 = 0
           | Inr st \<Rightarrow> PorcentajeCompletado st \<le> 100)"
  proof (cases "initialDirtyCells ?s = 0")
    case True
    with idc show ?thesis by (simp add: getStatistics_def)
  next
    case False
    with idc r(15) have pos: "0 < initialDirtyCells ?s" by simp
    from le have "(of_int (cleanCells ?s) :: rat) \<le> of_int (initialDirtyCells ?s)"
      by simp
    with pos have "(of_int (cleanCells ?s) :: rat) * 100 / of_int (initialDirtyCells ?s) \<le> 100"
      by (simp add: pos_divide_le_eq)
    with False show ?thesis by (simp add: getStatistics_def)
  qed
  from mono c0 r(8) le idc cnt have
    "cleanCells ?s \<le> cleanCells (fst (step ?s t))
       \<and> 0 \<le> cleanCells ?s
       \<and> cleanCells ?s \<le> initialDirtyCells ?s
       \<and> initialDirtyCells ?s = initialDirtyCells s0
       \<and> cleanCells ?s + int (length (dirtyTiles ?s)) = initialDirtyCells s0"
    by simp
  with nd pct show ?thesis by blast
qed

theorem cleanCells_monotone_bounded_witness:
  "(case CleaningSimulation_init 2 2 1 (1 / 4) 60 0 (\<lambda>i. 0) (\<lambda>i. 0) of
      Inl e \<Rightarrow> False
    | Inr (s0, g) \<Rightarrow>
        cleanCells (run s0 [1]) = 0 \<and> cleanCells (run s0 [1, 2]) = 1
        \<and> initialDirtyCells s0 = 1
        \<and> cleanCells (run s0 [1]) \<le> cleanCells (fst (step (run s0 [1]) 2))
        \<and> cleanCells (run s0 [1, 2]) \<le> initialDirtyCells (run s0 [1, 2])
        \<and> (case getStatistics (run s0 [1, 2]) 3 of
             Inl e \<Rightarrow> initialDirtyCells s0 = 0
           | Inr st \<Rightarrow> PorcentajeCompletado st \<le> 100))"
proof -
  have ev: "(case CleaningSimulation_init 2 2 1 (1 / 4) 60 0 (\<lambda>i. 0) (\<lambda>i. 0) of
      Inl e \<Rightarrow> False
    | Inr (s0, g) \<Rightarrow>
        cleanCells (run s0 [1]) = 0 \<and> cleanCells (run s0 [1, 2]) = 1 \<and> initialDirtyCells s0 = 1)"
    by code_simp
  show ?thesis
  proof (cases "CleaningSimulation_init 2 2 1 (1 / 4) 60 0 (\<lambda>i. 0) (\<lambda>i. 0)")
    case (Inl e)
    with ev show ?thesis by simp
  next
    case (Inr r)
    obtain s0 g where r: "r = (s0, g)" by (cases r)
    from Inr r have i: "CleaningSimulation_init 2 2 1 (1 / 4) 60 0 (\<lambda>i. 0) (\<lambda>i. 0) = Inr (s0, g)"
      by simp
    from ev i have e: "cleanCells (run s0 [1]) = 0" "cleanCells (run s0 [1, 2]) = 1"
      "initialDirtyCells s0 = 1"
      by simp_all
    from cleanCells_monotone_bounded [OF i, of "[1]" 2]
      cleanCells_monotone_bounded [OF i, of "[1, 2]" 3] e
    show ?thesis unfolding i by (simp del: run.simps)
  qed
qed

lemma activate_running: "running (fst (activate s as)) = running s"
proof (induction as arbitrary: s)
  case Nil
  show ?case by simp
next
  case (Cons a as)
  show ?case
  proof (cases "agent_step s a")
    case (Inl e)
    then show ?thesis by simp
  next
    case (Inr s1)
    with Cons.IH [of s1] agent_step_frame [OF Inr] show ?thesis by simp
  qed
qed

lemma schedule_step_running: "running (fst (schedule_step s)) = running s"
  by (simp add: schedule_step_def case_prod_beta activate_running)

lemma step_running:
  "running (fst (step s t)) \<longleftrightarrow>
     running s \<and> \<not> (maxTime s \<le> t - startTime s \<or> initialDirtyCells s \<le> cleanCells s)"
  using schedule_step_running [of s]
  by (auto simp: step_def Let_def split: sum.splits prod.splits option.splits)

lemma sim_inv_all_clean:
  assumes "sim_inv s"
  shows "dirtyTiles s = [] \<longleftrightarrow> initialDirtyCells s \<le> cleanCells s"
    and "dirtyTiles s = [] \<longleftrightarrow> cleanCells s = initialDirtyCells s"
proof -
  from assms have "int (length (dirtyTiles s)) = initialDirtyCells s - cleanCells s"
    by (simp add: sim_inv_def)
  moreover have "dirtyTiles s = [] \<longleftrightarrow> int (length (dirtyTiles s)) = 0" by simp
  ultimately show "dirtyTiles s = [] \<longleftrightarrow> initialDirtyCells s \<le> cleanCells s"
    and "dirtyTiles s = [] \<longleftrightarrow> cleanCells s = initialDirtyCells s"
    by linarith+
qed

text \<open>
  Claim C3. In any running state reached from a constructed simulation, a \<open>step()\<close> call
  at clock reading \<open>t\<close> clears the flag \<open>running\<close> exactly when no dirty tile is left on
  the grid or the elapsed time \<open>t - startTime\<close> has reached \<open>maxTime\<close>; no dirty tile
  is left exactly when every tile that was dirty after construction is clean. In the scenario
  (5 by 5 grid, one robot, \<open>dirtPercentage = 0.2\<close>, which is the float
  \<open>3602879701896397 / 18014398509481984\<close>), as long as the time budget is not
  used up, the flag is cleared exactly by the call that finds \<open>cleanCells = 5\<close>, and the
  statistics of the terminated simulation report 100.
\<close>

theorem goal_variant_termination:
  assumes "CleaningSimulation_init w h rc dp mt now0 own glob = Inr (s0, g)"
      and "running (run s0 ts)"
  shows "(\<not> running (fst (step (run s0 ts) t)) \<longleftrightarrow>
            dirtyTiles (run s0 ts) = [] \<or> mt \<le> t - now0)
       \<and> (dirtyTiles (run s0 ts) = [] \<longleftrightarrow>
            (\<forall>a \<in> set (dirtyTiles s0). \<not> is_dirty_tile (run s0 ts) a))
       \<and> (w = 5 \<and> h = 5 \<and> dp = 3602879701896397 / 18014398509481984 \<and> rc = 1
            \<and> t - now0 < mt \<longrightarrow>
            (\<not> running (fst (step (run s0 ts) t)) \<longleftrightarrow> cleanCells (run s0 ts) = 5)
            \<and> (cleanCells (run s0 ts) = 5 \<longrightarrow>
                 (case getStatistics (fst (step (run s0 ts) t)) t of
                    Inl e \<Rightarrow> False
                  | Inr st \<Rightarrow> PorcentajeCompletado st = 100)))"
proof -
  let ?s = "run s0 ts"
  note r = init_result [OF assms(1)]
  from reachable_inv [OF assms(1), of ts] have inv: "sim_inv ?s" and ev: "evolves s0 ?s"
    by simp_all
  from ev r have f: "maxTime ?s = mt" "startTime ?s = now0"
    "initialDirtyCells ?s = initialDirtyCells s0"
    by (simp_all add: evolves_def)
  have gen: "\<not> running (fst (step ?s t)) \<longleftrightarrow> dirtyTiles ?s = [] \<or> mt \<le> t - now0"
    using assms(2) by (auto simp: step_running f(1,2) sim_inv_all_clean(1) [OF inv])
  have scen: "(\<not> running (fst (step ?s t)) \<longleftrightarrow> cleanCells ?s = 5)
            \<and> (cleanCells ?s = 5 \<longrightarrow>
                 (case getStatistics (fst (step ?s t)) t of
                    Inl e \<Rightarrow> False
                  | Inr st \<Rightarrow> PorcentajeCompletado st = 100))"
    if "w = 5" "h = 5" "dp = 3602879701896397 / 18014398509481984" "rc = 1" "t - now0 < mt"
  proof -
    have "int_of_product (5 * 5) (3602879701896397 / 18014398509481984) = Inr 5"
      by code_simp
    with r(9) f(3) have i5: "initialDirtyCells ?s = 5" unfolding that(1,2,3) by simp
    from that(5) gen have a: "\<not> running (fst (step ?s t)) \<longleftrightarrow> cleanCells ?s = 5"
      by (simp add: sim_inv_all_clean(2) [OF inv] i5)
    have b: "(case getStatistics (fst (step ?s t)) t of
                    Inl e \<Rightarrow> False
                  | Inr st \<Rightarrow> PorcentajeCompletado st = 100)" if c: "cleanCells ?s = 5"
    proof -
      from c i5 have "fst (step ?s t) = ?s\<lparr>running := False\<rparr>"
        by (intro step_terminated) simp
      with c i5 show ?thesis by (simp add: getStatistics_def)
    qed
    from a b show ?thesis by blast
  qed
  from gen all_clean_iff [OF assms(1), of ts] scen show ?thesis by blast
qed

theorem goal_variant_termination_witness:
  "(case CleaningSimulation_init 5 5 1 (3602879701896397 / 18014398509481984) 60 0
            (\<lambda>i. if i = 7 \<or> i = 10 \<or> i = 13 then 1 else 0) (\<lambda>i. 0) of
      Inl e \<Rightarrow> False
    | Inr (s0, g) \<Rightarrow>
        running (run s0 [1, 2, 3, 4, 5, 6, 7, 8, 9])
        \<and> cleanCells (run s0 [1, 2, 3, 4, 5, 6, 7, 8, 9]) = 4
        \<and> running (fst (step (run s0 [1, 2, 3, 4, 5, 6, 7, 8, 9]) 10))
        \<and> running (run s0 [1, 2, 3, 4, 5, 6, 7, 8, 9, 10])
        \<and> cleanCells (run s0 [1, 2, 3, 4, 5, 6, 7, 8, 9, 10]) = 5
        \<and> dirtyTiles (run s0 [1, 2, 3, 4, 5, 6, 7, 8, 9, 10]) = []
        \<and> \<not> running (fst (step (run s0 [1, 2, 3, 4, 5, 6, 7, 8, 9, 10]) 11))
        \<and> (case getStatistics (fst (step (run s0 [1, 2, 3, 4, 5, 6, 7, 8, 9, 10]) 11)) 11 of
              Inl e \<Rightarrow> False
            | Inr st \<Rightarrow> PorcentajeCompletado st = 100))"
proof -
  let ?own = "\<lambda>i::nat. if i = 7 \<or> i = 10 \<or> i = 13 then 1 else (0::nat)"
  have ev: "(case CleaningSimulation_init 5 5 1 (3602879701896397 / 18014398509481984) 60 0 ?own (\<lambda>i. 0) of
      Inl e \<Rightarrow> False
    | Inr (s0, g) \<Rightarrow>
        running (run s0 [1, 2, 3, 4, 5, 6, 7, 8, 9])
        \<and> cleanCells (run s0 [1, 2, 3, 4, 5, 6, 7, 8, 9]) = 4
        \<and> running (run s0 [1, 2, 3, 4, 5, 6, 7, 8, 9, 10])
        \<and> cleanCells (run s0 [1, 2, 3, 4, 5, 6, 7, 8, 9, 10]) = 5)"
    by code_simp
  show ?thesis
  proof (cases "CleaningSimulation_init 5 5 1 (3602879701896397 / 18014398509481984) 60 0 ?own (\<lambda>i. 0)")
    case (Inl e)
    with ev show ?thesis by simp
  next
    case (Inr r)
    obtain s0 g where r: "r = (s0, g)" by (cases r)
    from Inr r have i: "CleaningSimulation_init 5 5 1 (3602879701896397 / 18014398509481984) 60 0 ?own (\<lambda>i. 0) = Inr (s0, g)"
      by simp
    from ev i have e: "running (run s0 [1, 2, 3, 4, 5, 6, 7, 8, 9])"
      "cleanCells (run s0 [1, 2, 3, 4, 5, 6, 7, 8, 9]) = 4"
      "running (run s0 [1, 2, 3, 4, 5, 6, 7, 8, 9, 10])"
      "cleanCells (run s0 [1, 2, 3, 4, 5, 6, 7, 8, 9, 10]) = 5"
      by simp_all
    from goal_variant_termination [OF i e(1), of 10] goal_variant_termination [OF i e(3), of 11] e
    show ?thesis unfolding i by (auto simp del: run.simps)
  qed
qed

section \<open>Cleaning and moving\<close>

lemma agent_step_other_pos:
  assumes "agent_step s a = Inr s'" and "a \<noteq> r"
  shows "agent_pos (grid s') r = agent_pos (grid s) r"
  using agent_step_cases [OF assms(1)] assms(2) by auto

lemma shuffle_single: "random_shuffle g [r] = ([r], \<lambda>i. g (Suc i))"
  by (simp add: random_shuffle_def randbelow_def)

lemma single_robot_round:
  assumes "agents s r = Some (CleaningRobot c m)"
      and "agent_pos (grid s) r = Some p"
      and "find (is_dirty_tile s) (get_cell_list_contents (grid s) p) = Some obj"
      and "schedule s = [r]"
  shows "agent_pos (grid (fst (step s now))) r = Some p"
proof (cases "maxTime s \<le> now - startTime s \<or> initialDirtyCells s \<le> cleanCells s")
  case True
  from step_terminated [OF this] assms(2) show ?thesis by simp
next
  case False
  let ?s1 = "s\<lparr>random := (\<lambda>i. random s (Suc i))\<rparr>"
  have "find (is_dirty_tile ?s1) (get_cell_list_contents (grid ?s1) p) = Some obj"
    using assms(3) by (simp add: is_dirty_tile_updates)
  from clean_case [of ?s1 r c m p obj, OF _ _ this] assms(1,2)
  have "CleaningRobot_step ?s1 r =
          Inr (?s1\<lparr>agents := (agents ?s1)(obj \<mapsto> GridTile 0, r \<mapsto> CleaningRobot (c + 1) m),
                    cleanCells := cleanCells ?s1 + 1\<rparr>)"
    by simp
  with assms(1) have "schedule_step s =
          (?s1\<lparr>agents := (agents ?s1)(obj \<mapsto> GridTile 0, r \<mapsto> CleaningRobot (c + 1) m),
                cleanCells := cleanCells ?s1 + 1\<rparr>, None)"
    by (simp add: schedule_step_def assms(4) shuffle_single agent_step_def)
  with False assms(2) show ?thesis
    by (simp add: step_def Let_def)
qed

text \<open>
  Claim C4, as the code has it. When a robot is activated and a tile in its cell is
  dirty, \<open>CleaningRobot.step\<close> returns normally, the dirty tile found (the tile of the
  cell, when the cell holds one tile) is clean afterwards, the robot's \<open>cellsCleaned\<close> and
  the simulation's \<open>cleanCells\<close> have grown by one, and the grid, so also the robot's
  coordinate, is unchanged. No activation of another agent changes the robot's coordinate.
  When the robot is the only scheduled agent and stands on a dirty tile at the start of a
  round, it stands there at the end of that \<open>step()\<close>.
\<close>

theorem cleaning_precedes_moving:
  assumes "agents s r = Some (CleaningRobot c m)"
      and "agent_pos (grid s) r = Some p"
      and "t \<in> set (get_cell_list_contents (grid s) p)"
      and "is_dirty_tile s t"
  shows "(\<exists>obj s'. CleaningRobot_step s r = Inr s'
            \<and> obj \<in> set (get_cell_list_contents (grid s) p) \<and> is_dirty_tile s obj
            \<and> (tiles_at s p = [t] \<longrightarrow> obj = t)
            \<and> agents s' obj = Some (GridTile 0)
            \<and> agents s' r = Some (CleaningRobot (c + 1) m)
            \<and> cleanCells s' = cleanCells s + 1
            \<and> grid s' = grid s \<and> agent_pos (grid s') r = Some p)
       \<and> (\<forall>s1 a s2. a \<noteq> r \<and> agent_step s1 a = Inr s2 \<longrightarrow>
             agent_pos (grid s2) r = agent_pos (grid s1) r)
       \<and> (schedule s = [r] \<longrightarrow> agent_pos (grid (fst (step s now))) r = Some p)"
proof -
  from assms(3,4) obtain obj where
    f: "find (is_dirty_tile s) (get_cell_list_contents (grid s) p) = Some obj"
    by (cases "find (is_dirty_tile s) (get_cell_list_contents (grid s) p)")
       (auto simp: find_None_iff)
  from find_dirty_SomeD [OF f] have
    mem: "obj \<in> set (get_cell_list_contents (grid s) p)" and d: "is_dirty_tile s obj"
    by simp_all
  from d assms(1) have ne: "obj \<noteq> r" by (auto simp: is_dirty_tile_def)
  from mem d have "obj \<in> set (tiles_at s p)"
    by (simp add: tiles_at_def is_dirty_is_tile)
  then have one: "tiles_at s p = [t] \<longrightarrow> obj = t" by auto
  let ?s' = "s\<lparr>agents := (agents s)(obj \<mapsto> GridTile 0, r \<mapsto> CleaningRobot (c + 1) m),
                cleanCells := cleanCells s + 1\<rparr>"
  have st: "CleaningRobot_step s r = Inr ?s'"
    by (rule clean_case [OF assms(1,2) f])
  have "agents ?s' obj = Some (GridTile 0)" "agents ?s' r = Some (CleaningRobot (c + 1) m)"
    "cleanCells ?s' = cleanCells s + 1" "grid ?s' = grid s" "agent_pos (grid ?s') r = Some p"
    using ne assms(2) by simp_all
  with st mem d one have A: "\<exists>obj s'. CleaningRobot_step s r = Inr s'
            \<and> obj \<in> set (get_cell_list_contents (grid s) p) \<and> is_dirty_tile s obj
            \<and> (tiles_at s p = [t] \<longrightarrow> obj = t)
            \<and> agents s' obj = Some (GridTile 0)
            \<and> agents s' r = Some (CleaningRobot (c + 1) m)
            \<and> cleanCells s' = cleanCells s + 1
            \<and> grid s' = grid s \<and> agent_pos (grid s') r = Some p"
    by blast
  have B: "\<forall>s1 a s2. a \<noteq> r \<and> agent_step s1 a = Inr s2 \<longrightarrow>
             agent_pos (grid s2) r = agent_pos (grid s1) r"
    using agent_step_other_pos by blast
  have C: "schedule s = [r] \<longrightarrow> agent_pos (grid (fst (step s now))) r = Some p"
    using single_robot_round [OF assms(1,2) f] by blast
  from A B C show ?thesis by blast
qed

text \<open>
  Claim C4. The claim concludes that an agent occupying a dirty tile at round start never
  changes coordinate that round. All robots start at \<open>(1, 1)\<close> and are activated one after
  the other: with two robots on a 2 by 2 grid whose dirty tile is \<open>(1, 1)\<close>, the robot
  activated first cleans the tile, and the second robot, which also stood on the dirty
  tile at round start, finds it clean and moves to \<open>(0, 0)\<close> in the same round.
\<close>

theorem second_robot_leaves_dirty_tile:
  "(case CleaningSimulation_init 2 2 2 (1 / 4) 60 0 (\<lambda>i. 0) (\<lambda>i. 3) of
      Inl e \<Rightarrow> False
    | Inr (s, g) \<Rightarrow>
        agent_pos (grid s) (robot_id 1) = Some (1, 1)
        \<and> tile_id 1 1 \<in> set (get_cell_list_contents (grid s) (1, 1))
        \<and> is_dirty_tile s (tile_id 1 1)
        \<and> snd (step s 1) = None
        \<and> agent_pos (grid (fst (step s 1))) (robot_id 1) = Some (0, 0))"
  by code_simp

theorem cleaning_precedes_moving_witness:
  "(case CleaningSimulation_init 2 2 1 (1 / 4) 60 0 (\<lambda>i. 0) (\<lambda>i. 3) of
      Inl e \<Rightarrow> False
    | Inr (s, g) \<Rightarrow>
        agents s (robot_id 0) = Some (CleaningRobot 0 0)
        \<and> agent_pos (grid s) (robot_id 0) = Some (1, 1)
        \<and> tile_id 1 1 \<in> set (get_cell_list_contents (grid s) (1, 1))
        \<and> is_dirty_tile s (tile_id 1 1)
        \<and> tiles_at s (1, 1) = [tile_id 1 1]
        \<and> schedule s = [robot_id 0]
        \<and> cleanCells s = 0
        \<and> (\<exists>s'. CleaningRobot_step s (robot_id 0) = Inr s'
              \<and> agents s' (tile_id 1 1) = Some (GridTile 0)
              \<and> agents s' (robot_id 0) = Some (CleaningRobot 1 0)
              \<and> cleanCells s' = 1
              \<and> agent_pos (grid s') (robot_id 0) = Some (1, 1))
        \<and> agent_pos (grid (fst (step s 1))) (robot_id 0) = Some (1, 1))"
proof -
  have ev: "(case CleaningSimulation_init 2 2 1 (1 / 4) 60 0 (\<lambda>i. 0) (\<lambda>i. 3) of
      Inl e \<Rightarrow> False
    | Inr (s, g) \<Rightarrow>
        agents s (robot_id 0) = Some (CleaningRobot 0 0)
        \<and> agent_pos (grid s) (robot_id 0) = Some (1, 1)
        \<and> tile_id 1 1 \<in> set (get_cell_list_contents (grid s) (1, 1))
        \<and> is_dirty_tile s (tile_id 1 1)
        \<and> tiles_at s (1, 1) = [tile_id 1 1]
        \<and> schedule s = [robot_id 0]
        \<and> cleanCells s = 0)"
    by code_simp
  show ?thesis
  proof (cases "CleaningSimulation_init 2 2 1 (1 / 4) 60 0 (\<lambda>i. 0) (\<lambda>i. 3)")
    case (Inl e)
    with ev show ?thesis by simp
  next
    case (Inr r)
    obtain s g where r: "r = (s, g)" by (cases r)
    from Inr r have i: "CleaningSimulation_init 2 2 1 (1 / 4) 60 0 (\<lambda>i. 0) (\<lambda>i. 3) = Inr (s, g)"
      by simp
    from ev i have e: "agents s (robot_id 0) = Some (CleaningRobot 0 0)"
      "agent_pos (grid s) (robot_id 0) = Some (1, 1)"
      "tile_id 1 1 \<in> set (get_cell_list_contents (grid s) (1, 1))"
      "is_dirty_tile s (tile_id 1 1)"
      "tiles_at s (1, 1) = [tile_id 1 1]"
      "schedule s = [robot_id 0]"
      "cleanCells s = 0"
      by simp_all
    from cleaning_precedes_moving [OF e(1,2,3,4), of 1] e(5,6,7)
    have "(\<exists>s'. CleaningRobot_step s (robot_id 0) = Inr s'
              \<and> agents s' (tile_id 1 1) = Some (GridTile 0)
              \<and> agents s' (robot_id 0) = Some (CleaningRobot 1 0)
              \<and> cleanCells s' = 1
              \<and> agent_pos (grid s') (robot_id 0) = Some (1, 1))
        \<and> agent_pos (grid (fst (step s 1))) (robot_id 0) = Some (1, 1)"
      by auto
    with e show ?thesis unfolding i by simp
  qed
qed

section \<open>The empty neighbourhood\<close>

lemma get_neighborhood_1x1:
  "width g = 1 \<Longrightarrow> height g = 1 \<Longrightarrow> get_neighborhood g (0, 0) = []"
  by (simp add: get_neighborhood_def out_of_bounds_def)

lemma randomMove_no_neighbours:
  "agent_pos (grid s) r = Some p \<Longrightarrow> get_neighborhood (grid s) p = [] \<Longrightarrow> randomMove s r = Inr s"
  by (simp add: randomMove_def)

lemma CleaningRobot_step_no_neighbours:
  assumes "agent_pos (grid s) r = Some p" and "get_neighborhood (grid s) p = []"
      and "dirty_at s p = []"
  shows "CleaningRobot_step s r = Inr s"
proof -
  from assms(3) have "find (is_dirty_tile s) (get_cell_list_contents (grid s) p) = None"
    by (simp add: dirty_at_def find_None_iff filter_empty_conv)
  with assms(1,2) show ?thesis
    by (simp add: CleaningRobot_step_def randomMove_no_neighbours)
qed

lemma random_move_no_neighbours:
  "agent_pos (cr_grid s) r = Some p \<Longrightarrow> get_neighborhood (cr_grid s) p = [] \<Longrightarrow>
     random_move s r = Inl IndexError"
  by (simp add: random_move_def random_choice_def)

text \<open>
  Claim C6. On a 1 by 1 grid the neighbourhood of \<open>(0, 0)\<close> is empty. In main.py the
  move is guarded by \<open>if validCells\<close>: \<open>randomMove\<close> returns the state as it was, and a
  robot on a clean tile has a whole activation without effect (the lemmas above). In
  cleaning\_robot.py \<open>random_move\<close> passes the empty neighbourhood to \<open>random.choice\<close>:
  for a robot placed on the clean tile of a 1 by 1 grid, \<open>random_move\<close>, and with it the
  robot's \<open>step\<close>, raises \<open>IndexError\<close>.
\<close>

theorem random_move_empty_neighbourhood_raises:
  "(case cr_init 0 1 1 100 0 (\<lambda>i. 0) (\<lambda>i. 0) of
      Inl e \<Rightarrow> False
    | Inr (s, g) \<Rightarrow>
        (case place_agent (cr_grid s) (robot_id 0) (0, 0) of
           Inl e \<Rightarrow> False
         | Inr gr \<Rightarrow>
             get_neighborhood gr (0, 0) = []
             \<and> cr_dirty_at s (0, 0) = []
             \<and> (case random_move
                        (s\<lparr>cr_agents := (cr_agents s)(robot_id 0 \<mapsto> cr_CleaningRobot),
                           cr_grid := gr\<rparr>) (robot_id 0) of
                   Inl e \<Rightarrow> e = IndexError
                 | Inr s' \<Rightarrow> False)
             \<and> (case cr_CleaningRobot_step
                        (s\<lparr>cr_agents := (cr_agents s)(robot_id 0 \<mapsto> cr_CleaningRobot),
                           cr_grid := gr\<rparr>) (robot_id 0) of
                   Inl e \<Rightarrow> e = IndexError
                 | Inr s' \<Rightarrow> False)))"
  by code_simp

section \<open>The terminated simulation\<close>

lemma neighbourhood_in_bounds: "q \<in> set (get_neighborhood g p) \<Longrightarrow> \<not> out_of_bounds g q"
  unfolding get_neighborhood_def set_filter by blast

lemma random_move_cases:
  assumes "agent_pos (cr_grid s) r = Some p"
  shows "random_move s r = Inl IndexError \<or>
         (\<exists>q. \<not> out_of_bounds (cr_grid s) q \<and>
            random_move s r =
              Inr (s\<lparr>cr_random := (\<lambda>i. cr_random s (Suc i)),
                     cr_grid := (cr_grid s)\<lparr>cells := ((cells (cr_grid s))(p := remove1 r (cells (cr_grid s) p)))
                                   (q := ((cells (cr_grid s))(p := remove1 r (cells (cr_grid s) p))) q @ [r]),
                                agent_pos := (agent_pos (cr_grid s))(r \<mapsto> q)\<rparr>\<rparr>))"
proof (cases "get_neighborhood (cr_grid s) p = []")
  case True
  with assms show ?thesis by (simp add: random_move_no_neighbours)
next
  case False
  let ?adj = "get_neighborhood (cr_grid s) p"
  let ?q = "?adj ! (cr_random s 0 mod length ?adj)"
  from random_choice_Inr [OF False, of "cr_random s"] have
    ch: "random_choice (cr_random s) ?adj = Inr (?q, \<lambda>i. cr_random s (Suc i))"
    and mem: "?q \<in> set ?adj"
    by simp_all
  from mem have inb: "\<not> out_of_bounds (cr_grid s) ?q" by (rule neighbourhood_in_bounds)
  have "random_move s r =
          Inr (s\<lparr>cr_random := (\<lambda>i. cr_random s (Suc i)),
                 cr_grid := (cr_grid s)\<lparr>cells := ((cells (cr_grid s))(p := remove1 r (cells (cr_grid s) p)))
                               (?q := ((cells (cr_grid s))(p := remove1 r (cells (cr_grid s) p))) ?q @ [r]),
                            agent_pos := (agent_pos (cr_grid s))(r \<mapsto> ?q)\<rparr>\<rparr>)"
    using assms ch move_agent_Inr [OF assms inb]
    by (simp add: random_move_def Let_def)
  with inb show ?thesis by blast
qed

lemma cr_agent_step_cases:
  assumes "cr_agent_step s a = Inr s'"
  shows "s' = s
       \<or> (\<exists>p obj. cr_agents s a = Some cr_CleaningRobot \<and> agent_pos (cr_grid s) a = Some p
             \<and> obj \<in> set (cells (cr_grid s) p) \<and> cr_is_dirty_tile s obj
             \<and> s' = s\<lparr>cr_agents := (cr_agents s)(obj \<mapsto> cr_GridTile 0)\<rparr>)
       \<or> (\<exists>p q. cr_agents s a = Some cr_CleaningRobot \<and> agent_pos (cr_grid s) a = Some p
             \<and> \<not> out_of_bounds (cr_grid s) q
             \<and> s' = s\<lparr>cr_random := (\<lambda>i. cr_random s (Suc i)),
                     cr_grid := (cr_grid s)\<lparr>cells := ((cells (cr_grid s))(p := remove1 a (cells (cr_grid s) p)))
                                   (q := ((cells (cr_grid s))(p := remove1 a (cells (cr_grid s) p))) q @ [a]),
                                agent_pos := (agent_pos (cr_grid s))(a \<mapsto> q)\<rparr>\<rparr>)"
proof (cases "cr_agents s a = Some cr_CleaningRobot")
  case False
  with assms show ?thesis
    by (auto simp: cr_agent_step_def split: option.splits cr_agent.splits)
next
  case rob: True
  with assms have st: "cr_CleaningRobot_step s a = Inr s'" by (simp add: cr_agent_step_def)
  then obtain p where p: "agent_pos (cr_grid s) a = Some p"
    by (auto simp: cr_CleaningRobot_step_def split: option.splits)
  show ?thesis
  proof (cases "find (cr_is_dirty_tile s) (get_cell_list_contents (cr_grid s) p)")
    case (Some obj)
    then have "obj \<in> set (cells (cr_grid s) p)" "cr_is_dirty_tile s obj"
      by (auto simp: find_Some_iff get_cell_list_contents_def)
    moreover from Some st p have "s' = s\<lparr>cr_agents := (cr_agents s)(obj \<mapsto> cr_GridTile 0)\<rparr>"
      by (simp add: cr_CleaningRobot_step_def)
    ultimately show ?thesis using rob p by blast
  next
    case None
    with st p have rm: "random_move s a = Inr s'" by (simp add: cr_CleaningRobot_step_def)
    from random_move_cases [OF p] show ?thesis
    proof (elim disjE exE conjE)
      assume "random_move s a = Inl IndexError"
      with rm show ?thesis by simp
    next
      fix q
      assume oob: "\<not> out_of_bounds (cr_grid s) q"
        and eq: "random_move s a =
              Inr (s\<lparr>cr_random := (\<lambda>i. cr_random s (Suc i)),
                     cr_grid := (cr_grid s)\<lparr>cells := ((cells (cr_grid s))(p := remove1 a (cells (cr_grid s) p)))
                                   (q := ((cells (cr_grid s))(p := remove1 a (cells (cr_grid s) p))) q @ [a]),
                                agent_pos := (agent_pos (cr_grid s))(a \<mapsto> q)\<rparr>\<rparr>)"
      from rm eq have "s' =
              s\<lparr>cr_random := (\<lambda>i. cr_random s (Suc i)),
                     cr_grid := (cr_grid s)\<lparr>cells := ((cells (cr_grid s))(p := remove1 a (cells (cr_grid s) p)))
                                   (q := ((cells (cr_grid s))(p := remove1 a (cells (cr_grid s) p))) q @ [a]),
                                agent_pos := (agent_pos (cr_grid s))(a \<mapsto> q)\<rparr>\<rparr>"
        by simp
      with rob p oob show ?thesis by blast
    qed
  qed
qed

lemma cr_agent_step_frame:
  assumes "cr_agent_step s a = Inr s'"
  shows "cr_running s' = cr_running s \<and> steps_remaining s' = steps_remaining s \<and>
         cr_schedule s' = cr_schedule s \<and>
         width (cr_grid s') = width (cr_grid s) \<and> height (cr_grid s') = height (cr_grid s)"
  using cr_agent_step_cases [OF assms] by auto

lemma cr_activate_frame:
  "cr_running (fst (cr_activate s as)) = cr_running s \<and>
   steps_remaining (fst (cr_activate s as)) = steps_remaining s"
proof (induction as arbitrary: s)
  case Nil
  show ?case by simp
next
  case (Cons a as)
  show ?case
  proof (cases "cr_agent_step s a")
    case (Inl e)
    then show ?thesis by simp
  next
    case (Inr s1)
    with Cons.IH [of s1] cr_agent_step_frame [OF Inr] show ?thesis by simp
  qed
qed

lemma cr_schedule_step_frame:
  "cr_running (fst (cr_schedule_step s)) = cr_running s \<and>
   steps_remaining (fst (cr_schedule_step s)) = steps_remaining s"
  by (simp add: cr_schedule_step_def case_prod_beta cr_activate_frame)

lemma cr_step_terminated:
  "steps_remaining s \<le> 0 \<Longrightarrow> cr_step s = (s\<lparr>cr_running := False\<rparr>, None)"
  by (simp add: cr_step_def)

lemma cr_step_running:
  "cr_running (fst (cr_step s)) \<longleftrightarrow> cr_running s \<and> 0 < steps_remaining s"
  using cr_schedule_step_frame [of s]
  by (auto simp: cr_step_def split: prod.splits option.splits)

lemma cr_step_budget:
  "cr_running s \<or> steps_remaining s \<le> 0 \<Longrightarrow>
     cr_running (fst (cr_step s)) \<or> steps_remaining (fst (cr_step s)) \<le> 0"
  using cr_schedule_step_frame [of s]
  by (auto simp: cr_step_def split: prod.splits option.splits)

lemma cr_run_budget:
  "cr_running s \<or> steps_remaining s \<le> 0 \<Longrightarrow>
     cr_running (cr_run s n) \<or> steps_remaining (cr_run s n) \<le> 0"
proof (induction n arbitrary: s)
  case 0
  then show ?case by simp
next
  case (Suc n)
  from Suc.IH [OF cr_step_budget [OF Suc.prems]] show ?case by simp
qed

lemma cr_run_stays_terminated: "\<not> cr_running s \<Longrightarrow> \<not> cr_running (cr_run s n)"
  by (induction n arbitrary: s) (simp_all add: cr_step_running)

lemma cr_init_running:
  assumes "cr_init rc w h n dp own glob = Inr (s, g)"
  shows "cr_running s"
proof -
  from assms obtain d s1 where
    "cr_createTiles d (all_coords w h)
          \<lparr>cr_running = True, steps_remaining = n, cr_grid = MultiGrid w h, cr_schedule = [],
           cr_agents = (\<lambda>a. None), cr_random = own\<rparr> = Inr s1"
    and "cr_placeRobots (py_range rc) s1 = Inr s"
    by (auto simp: cr_init_def Let_def split: sum.splits prod.splits)
  from cr_createTiles_fields [OF this(1)] cr_placeRobots_fields [OF this(2)] show ?thesis by simp
qed


lemma step_keeps_termination_test:
  assumes "running s \<or> maxTime s \<le> t0 - startTime s \<or> initialDirtyCells s \<le> cleanCells s"
      and "t0 \<le> t"
  shows "running (fst (step s t)) \<or> maxTime (fst (step s t)) \<le> t - startTime (fst (step s t))
         \<or> initialDirtyCells (fst (step s t)) \<le> cleanCells (fst (step s t))"
proof (cases "maxTime s \<le> t - startTime s \<or> initialDirtyCells s \<le> cleanCells s")
  case True
  with step_terminated [OF True] show ?thesis by auto
next
  case False
  with assms have "running s" by auto
  with False show ?thesis by (simp add: step_running)
qed

lemma run_keeps_termination_test:
  assumes "running s \<or> maxTime s \<le> t0 - startTime s \<or> initialDirtyCells s \<le> cleanCells s"
      and "sorted (t0 # ts)"
  shows "running (run s ts) \<or> maxTime (run s ts) \<le> last (t0 # ts) - startTime (run s ts)
         \<or> initialDirtyCells (run s ts) \<le> cleanCells (run s ts)"
  using assms
proof (induction ts arbitrary: s t0)
  case Nil
  then show ?case by simp
next
  case (Cons t ts)
  from Cons.prems(2) have le: "t0 \<le> t" and srt: "sorted (t # ts)" by simp_all
  from Cons.IH [OF step_keeps_termination_test [OF Cons.prems(1) le] srt]
  show ?case by simp
qed

lemma run_stays_terminated: "\<not> running s \<Longrightarrow> \<not> running (run s ts)"
  using run_evolves [of s ts] by (simp add: evolves_def)

lemma step_terminated_outcome:
  assumes "maxTime s \<le> t - startTime s \<or> initialDirtyCells s \<le> cleanCells s"
  shows "step s t =
           (s\<lparr>running := False\<rparr>,
            if initialDirtyCells s = 0 then Some ZeroDivisionError else None)"
  using assms by (auto simp: step_def Let_def getStatistics_def)

lemma terminated_main:
  assumes i: "CleaningSimulation_init w h rc dp mt now0 own glob = Inr (s0, g)"
      and nr: "\<not> running (run s0 ts)"
  shows "\<not> running (fst (step (run s0 ts) t))"
    and "\<not> running (run (run s0 ts) ts')"
    and "mt \<le> t - now0 \<or> dirtyTiles (run s0 ts) = [] \<Longrightarrow>
           step (run s0 ts) t =
             (run s0 ts, if initialDirtyCells s0 = 0 then Some ZeroDivisionError else None)"
    and "sorted (now0 # ts @ [t]) \<Longrightarrow> mt \<le> t - now0 \<or> dirtyTiles (run s0 ts) = []"
proof -
  let ?s = "run s0 ts"
  note r = init_result [OF i]
  from reachable_inv [OF i, of ts] have inv: "sim_inv ?s" and ev: "evolves s0 ?s"
    by simp_all
  from ev r have f: "maxTime ?s = mt" "startTime ?s = now0"
    "initialDirtyCells ?s = initialDirtyCells s0"
    by (simp_all add: evolves_def)
  from nr show "\<not> running (fst (step ?s t))" by (simp add: step_running)
  from nr show "\<not> running (run ?s ts')" by (rule run_stays_terminated)
  show "step ?s t = (?s, if initialDirtyCells s0 = 0 then Some ZeroDivisionError else None)"
    if "mt \<le> t - now0 \<or> dirtyTiles ?s = []"
  proof -
    from that f have "maxTime ?s \<le> t - startTime ?s \<or> initialDirtyCells ?s \<le> cleanCells ?s"
      by (auto simp: sim_inv_all_clean(1) [OF inv])
    from step_terminated_outcome [OF this] nr f(3) show ?thesis by simp
  qed
  show "mt \<le> t - now0 \<or> dirtyTiles ?s = []" if "sorted (now0 # ts @ [t])"
  proof -
    from that have srt: "sorted (now0 # ts)" and le: "last (now0 # ts) \<le> t"
      by (auto simp: sorted_append)
    from r(1) have "running ?s \<or> maxTime ?s \<le> last (now0 # ts) - startTime ?s
         \<or> initialDirtyCells ?s \<le> cleanCells ?s"
      using srt by (intro run_keeps_termination_test) simp
    with nr le f show ?thesis
      by (auto simp: sim_inv_all_clean(1) [OF inv])
  qed
qed

lemma cr_terminated:
  assumes i: "cr_init rc w h n dp own glob = Inr (ci, g)"
      and nr: "\<not> cr_running (cr_run ci k)"
  shows "cr_step (cr_run ci k) = (cr_run ci k, None)"
    and "\<not> cr_running (cr_run (cr_run ci k) j)"
proof -
  let ?c = "cr_run ci k"
  from i have "cr_running ci" by (rule cr_init_running)
  then have "cr_running ?c \<or> steps_remaining ?c \<le> 0"
    by (intro cr_run_budget) simp
  with nr have "steps_remaining ?c \<le> 0" by simp
  from cr_step_terminated [OF this] nr show "cr_step ?c = (?c, None)" by simp
  from nr show "\<not> cr_running (cr_run ?c j)" by (rule cr_run_stays_terminated)
qed

text \<open>
  Claim C7. main.py: \<open>step()\<close> does not read the flag \<open>running\<close>; it repeats its
  termination test on a fresh reading of the wall clock. A 5 by 5 simulation with one
  robot and \<open>maxTime = 60\<close>, constructed at clock reading 0, is stepped at reading 60: the
  time budget is used up and \<open>running\<close> becomes false, with no round executed and the
  robot at \<open>(1, 1)\<close>. The clock is then set back, and the next \<open>step()\<close> reads 59: the
  test fails, a whole round runs, the round counter goes from 0 to 1 and the robot moves
  to \<open>(0, 0)\<close>, while \<open>running\<close> stays false.
\<close>

theorem terminated_step_runs_a_round:
  "(case CleaningSimulation_init 5 5 1 (3602879701896397 / 18014398509481984) 60 0
           (\<lambda>i. 0) (\<lambda>i. 0) of
      Inl e \<Rightarrow> False
    | Inr (s0, g) \<Rightarrow>
        \<not> running (run s0 [60])
        \<and> stepsExecuted (run s0 [60]) = 0
        \<and> agent_pos (grid (run s0 [60])) (robot_id 0) = Some (1, 1)
        \<and> snd (step (run s0 [60]) 59) = None
        \<and> \<not> running (fst (step (run s0 [60]) 59))
        \<and> stepsExecuted (fst (step (run s0 [60]) 59)) = 1
        \<and> agent_pos (grid (fst (step (run s0 [60]) 59))) (robot_id 0) = Some (0, 0))"
  by code_simp

text \<open>
  Claim C7, as the code has it. In both modules the flag \<open>running\<close>, once false, is false
  after every further \<open>step()\<close>, whatever the clock reads. main.py: for a simulation that
  was constructed at clock reading \<open>now0\<close>, stepped at the readings \<open>ts\<close> and is not running
  any more, a \<open>step()\<close> at a reading \<open>t\<close> at which the termination test still holds (the
  time budget is used up at \<open>t\<close>, or no dirty tile is left) changes nothing in the state:
  round counter, grid and positions, tile statuses, counters and generator are what they
  were; the call returns normally unless \<open>initialDirtyCells\<close> is 0, where the statistics
  raise. The test holds at \<open>t\<close> whenever the clock has never gone back. cleaning\_robot.py:
  once \<open>running\<close> is false the round budget is used up and a further \<open>step()\<close> returns
  the state unchanged without an exception.
\<close>

theorem terminated_step_is_noop:
  "(CleaningSimulation_init w h rc dp mt now0 own glob = Inr (s0, g)
      \<and> \<not> running (run s0 ts) \<longrightarrow>
        \<not> running (fst (step (run s0 ts) t))
        \<and> (\<forall>ts'. \<not> running (run (run s0 ts) ts'))
        \<and> (mt \<le> t - now0 \<or> dirtyTiles (run s0 ts) = [] \<longrightarrow>
             step (run s0 ts) t =
               (run s0 ts, if initialDirtyCells s0 = 0 then Some ZeroDivisionError else None))
        \<and> (sorted (now0 # ts @ [t]) \<longrightarrow>
             (mt \<le> t - now0 \<or> dirtyTiles (run s0 ts) = [])
             \<and> fst (step (run s0 ts) t) = run s0 ts))
   \<and> (cr_init rc' w' h' n dp' own' glob' = Inr (ci, g') \<and> \<not> cr_running (cr_run ci k) \<longrightarrow>
        cr_step (cr_run ci k) = (cr_run ci k, None)
        \<and> (\<forall>j. \<not> cr_running (cr_run (cr_run ci k) j)))"
proof -
  have main: "\<not> running (fst (step (run s0 ts) t))
        \<and> (\<forall>ts'. \<not> running (run (run s0 ts) ts'))
        \<and> (mt \<le> t - now0 \<or> dirtyTiles (run s0 ts) = [] \<longrightarrow>
             step (run s0 ts) t =
               (run s0 ts, if initialDirtyCells s0 = 0 then Some ZeroDivisionError else None))
        \<and> (sorted (now0 # ts @ [t]) \<longrightarrow>
             (mt \<le> t - now0 \<or> dirtyTiles (run s0 ts) = [])
             \<and> fst (step (run s0 ts) t) = run s0 ts)"
    if i: "CleaningSimulation_init w h rc dp mt now0 own glob = Inr (s0, g)"
      and nr: "\<not> running (run s0 ts)"
  proof -
    note t = terminated_main [OF i nr]
    have "fst (step (run s0 ts) t) = run s0 ts" if "sorted (now0 # ts @ [t])"
      using t(3) [OF t(4) [OF that]] by simp
    with t(1) [of t] t(2) t(3) [of t] t(4) [of t] show ?thesis by blast
  qed
  have cr: "cr_step (cr_run ci k) = (cr_run ci k, None)
        \<and> (\<forall>j. \<not> cr_running (cr_run (cr_run ci k) j))"
    if "cr_init rc' w' h' n dp' own' glob' = Inr (ci, g')" and "\<not> cr_running (cr_run ci k)"
    using cr_terminated [OF that] by blast
  from main cr show ?thesis by blast
qed

theorem terminated_step_is_noop_witness:
  "(case CleaningSimulation_init 2 2 1 (1 / 4) 60 0 (\<lambda>i. 0) (\<lambda>i. 0) of
      Inl e \<Rightarrow> False
    | Inr (s0, g) \<Rightarrow>
        sorted [0, 1, 2, 3, 4 :: rat]
        \<and> running (run s0 [1, 2]) \<and> \<not> running (run s0 [1, 2, 3])
        \<and> dirtyTiles (run s0 [1, 2, 3]) = [] \<and> initialDirtyCells s0 = 1
        \<and> step (run s0 [1, 2, 3]) 4 = (run s0 [1, 2, 3], None)
        \<and> step (run s0 [1, 2, 3]) 0 = (run s0 [1, 2, 3], None)
        \<and> \<not> running (run (run s0 [1, 2, 3]) [5, 6]))
   \<and> (case cr_init 1 2 2 2 (1 / 4) (\<lambda>i. 0) (\<lambda>i. 0) of
      Inl e \<Rightarrow> False
    | Inr (c0, g') \<Rightarrow>
        cr_running (cr_run c0 2) \<and> \<not> cr_running (cr_run c0 3)
        \<and> cr_step (cr_run c0 3) = (cr_run c0 3, None)
        \<and> \<not> cr_running (cr_run (cr_run c0 3) 2))"
proof (rule conjI)
  have ev: "(case CleaningSimulation_init 2 2 1 (1 / 4) 60 0 (\<lambda>i. 0) (\<lambda>i. 0) of
      Inl e \<Rightarrow> False
    | Inr (s0, g) \<Rightarrow> running (run s0 [1, 2]) \<and> \<not> running (run s0 [1, 2, 3])
        \<and> dirtyTiles (run s0 [1, 2, 3]) = [] \<and> initialDirtyCells s0 = 1)"
    by code_simp
  show "(case CleaningSimulation_init 2 2 1 (1 / 4) 60 0 (\<lambda>i. 0) (\<lambda>i. 0) of
      Inl e \<Rightarrow> False
    | Inr (s0, g) \<Rightarrow>
        sorted [0, 1, 2, 3, 4 :: rat]
        \<and> running (run s0 [1, 2]) \<and> \<not> running (run s0 [1, 2, 3])
        \<and> dirtyTiles (run s0 [1, 2, 3]) = [] \<and> initialDirtyCells s0 = 1
        \<and> step (run s0 [1, 2, 3]) 4 = (run s0 [1, 2, 3], None)
        \<and> step (run s0 [1, 2, 3]) 0 = (run s0 [1, 2, 3], None)
        \<and> \<not> running (run (run s0 [1, 2, 3]) [5, 6]))"
  proof (cases "CleaningSimulation_init 2 2 1 (1 / 4) 60 0 (\<lambda>i. 0) (\<lambda>i. 0)")
    case (Inl e)
    with ev show ?thesis by simp
  next
    case (Inr r)
    obtain s0 g where r: "r = (s0, g)" by (cases r)
    from Inr r have i: "CleaningSimulation_init 2 2 1 (1 / 4) 60 0 (\<lambda>i. 0) (\<lambda>i. 0) = Inr (s0, g)"
      by simp
    from ev i have e: "running (run s0 [1, 2])" "\<not> running (run s0 [1, 2, 3])"
      "dirtyTiles (run s0 [1, 2, 3]) = []" "initialDirtyCells s0 = 1"
      by simp_all
    have srt: "sorted (0 # [1, 2, 3] @ [4 :: rat])" by simp
    from terminated_step_is_noop [of 2 2 1 "1 / 4" 60 0 "\<lambda>i. 0" "\<lambda>i. 0" s0 g "[1, 2, 3]" 4]
      i srt e(2)
    have "step (run s0 [1, 2, 3]) 4 =
            (run s0 [1, 2, 3], if initialDirtyCells s0 = 0 then Some ZeroDivisionError else None)"
      and b: "\<not> running (run (run s0 [1, 2, 3]) [5, 6])"
      by blast+
    with e(4) have a: "step (run s0 [1, 2, 3]) 4 = (run s0 [1, 2, 3], None)"
      by (simp del: run.simps)
    from terminated_step_is_noop [of 2 2 1 "1 / 4" 60 0 "\<lambda>i. 0" "\<lambda>i. 0" s0 g "[1, 2, 3]" 0]
      i e(2,3)
    have "step (run s0 [1, 2, 3]) 0 =
            (run s0 [1, 2, 3], if initialDirtyCells s0 = 0 then Some ZeroDivisionError else None)"
      by blast
    with e(4) have c: "step (run s0 [1, 2, 3]) 0 = (run s0 [1, 2, 3], None)"
      by (simp del: run.simps)
    from a b c e show ?thesis unfolding i by (simp del: run.simps)
  qed
next
  have ev: "(case cr_init 1 2 2 2 (1 / 4) (\<lambda>i. 0) (\<lambda>i. 0) of
      Inl e \<Rightarrow> False
    | Inr (c0, g') \<Rightarrow> cr_running (cr_run c0 2) \<and> \<not> cr_running (cr_run c0 3))"
    by code_simp
  show "(case cr_init 1 2 2 2 (1 / 4) (\<lambda>i. 0) (\<lambda>i. 0) of
      Inl e \<Rightarrow> False
    | Inr (c0, g') \<Rightarrow>
        cr_running (cr_run c0 2) \<and> \<not> cr_running (cr_run c0 3)
        \<and> cr_step (cr_run c0 3) = (cr_run c0 3, None)
        \<and> \<not> cr_running (cr_run (cr_run c0 3) 2))"
  proof (cases "cr_init 1 2 2 2 (1 / 4) (\<lambda>i. 0) (\<lambda>i. 0)")
    case (Inl e)
    with ev show ?thesis by simp
  next
    case (Inr r)
    obtain c0 g' where r: "r = (c0, g')" by (cases r)
    from Inr r have i: "cr_init 1 2 2 2 (1 / 4) (\<lambda>i. 0) (\<lambda>i. 0) = Inr (c0, g')"
      by simp
    from ev i have e: "cr_running (cr_run c0 2)" "\<not> cr_running (cr_run c0 3)"
      by simp_all
    from terminated_step_is_noop [where ci = c0 and g' = g' and k = 3 and rc' = 1 and w' = 2
        and h' = 2 and n = 2 and dp' = "1 / 4" and own' = "\<lambda>i. 0" and glob' = "\<lambda>i. 0"]
      i e(2)
    have "cr_step (cr_run c0 3) = (cr_run c0 3, None)"
      and "\<not> cr_running (cr_run (cr_run c0 3) 2)"
      by blast+
    with e show ?thesis unfolding i by (simp del: cr_run.simps)
  qed
qed

section \<open>The tiles created by the constructors\<close>




















section \<open>Where the randomness comes from\<close>















end
